theory Spec2Isabelle
  imports Complex_Main "HOL-Library.Sublist"
begin

section \<open>Python strings\<close>

text \<open>
  A Python \<open>str\<close> is a \<^typ>\<open>string\<close>; every \<^typ>\<open>char\<close> stands for one code point
  below 256. \<open>isspace\<close> lists the code points of that range for which Python's
  \<open>str.isspace\<close> holds: these are the characters \<open>str.strip()\<close> removes.
\<close>

definition isspace :: "char \<Rightarrow> bool" where
  "isspace c = (c \<in> {CHR 0x09, CHR 0x0A, CHR 0x0B, CHR 0x0C, CHR 0x0D,
                      CHR 0x1C, CHR 0x1D, CHR 0x1E, CHR 0x1F, CHR 0x20,
                      CHR 0x85, CHR 0xA0})"

definition strip :: "string \<Rightarrow> string" where
  "strip s = rev (dropWhile isspace (rev (dropWhile isspace s)))"

text \<open>\<open>sep.join(xs)\<close>.\<close>

fun join :: "string \<Rightarrow> string list \<Rightarrow> string" where
  "join sep [] = []"
| "join sep [x] = x"
| "join sep (x # y # ys) = x @ sep @ join sep (y # ys)"

text \<open>\<open>s.startswith(p)\<close> is \<^const>\<open>prefix\<close> \<open>p s\<close>.\<close>

fun show_nat :: "nat \<Rightarrow> string" where
  "show_nat n =
     (if n < 10 then [''0123456789'' ! n]
      else show_nat (n div 10) @ [''0123456789'' ! (n mod 10)])"

definition show_int :: "int \<Rightarrow> string" where
  "show_int i = (if i < 0 then ''-'' @ show_nat (nat (- i)) else show_nat (nat i))"

section \<open>Python values, attributes and exceptions\<close>

datatype exc_class =
  AttributeError | TypeError | ValueError | RuntimeError
  | OSError | FileNotFoundError | PermissionError
  | KeyboardInterrupt | CancelledError

datatype pyexc = PyExc exc_class string

fun exc_msg :: "pyexc \<Rightarrow> string" where
  "exc_msg (PyExc k m) = m"

fun is_AttributeError :: "pyexc \<Rightarrow> bool" where
  "is_AttributeError (PyExc k m) = (k = AttributeError)"

text \<open>
  \<open>FileNotFoundError\<close> and \<open>PermissionError\<close> are subclasses of \<open>OSError\<close>.
  \<open>KeyboardInterrupt\<close> and \<open>asyncio.CancelledError\<close> derive from \<open>BaseException\<close> and
  not from \<open>Exception\<close>: an \<open>except Exception\<close> clause lets them pass.
\<close>

fun is_OSError :: "pyexc \<Rightarrow> bool" where
  "is_OSError (PyExc k m) = (k = OSError \<or> k = FileNotFoundError \<or> k = PermissionError)"

fun is_Exception :: "pyexc \<Rightarrow> bool" where
  "is_Exception (PyExc k m) = (k \<noteq> KeyboardInterrupt \<and> k \<noteq> CancelledError)"

text \<open>
  The values a message can hold. A float is kept as its printed form, a callable as its
  printed form, and an object of any other class as its class name, its attributes in
  \<open>dir()\<close> order and its printed form. Reading an attribute either gives a value or
  raises (a property whose getter raises).
\<close>

datatype pyval =
    PyNone
  | PyBool bool
  | PyInt int
  | PyFloat string
  | PyStr string
  | PyList "pyval list"
  | PyDict "(string \<times> pyval) list"
  | PyCallable string
  | PyObj string "(string \<times> (pyexc + pyval)) list" string

type_synonym attr_read = "pyexc + pyval"

text \<open>
  Truth value testing, as \<open>if x:\<close> does it. An object of another class is truthy: it
  defines neither \<open>__bool__\<close> nor \<open>__len__\<close>.
\<close>

fun py_truthy :: "pyval \<Rightarrow> bool" where
  "py_truthy PyNone = False"
| "py_truthy (PyBool b) = b"
| "py_truthy (PyInt i) = (i \<noteq> 0)"
| "py_truthy (PyFloat t) = (t \<noteq> ''0.0'' \<and> t \<noteq> ''-0.0'')"
| "py_truthy (PyStr s) = (s \<noteq> [])"
| "py_truthy (PyList xs) = (xs \<noteq> [])"
| "py_truthy (PyDict kvs) = (kvs \<noteq> [])"
| "py_truthy (PyCallable t) = True"
| "py_truthy (PyObj cls fields t) = True"

text \<open>\<open>repr\<close> of a \<open>str\<close>: the quote is chosen, then every character is escaped.\<close>

definition hex2 :: "char \<Rightarrow> string" where
  "hex2 c = [''0123456789abcdef'' ! (of_char c div 16), ''0123456789abcdef'' ! (of_char c mod 16)]"

definition printable :: "char \<Rightarrow> bool" where
  "printable c = (let n = (of_char c :: nat)
                  in (32 \<le> n \<and> n < 127) \<or> (161 \<le> n \<and> n \<noteq> 173))"

definition repr_char :: "char \<Rightarrow> char \<Rightarrow> string" where
  "repr_char q c =
     (if c = q \<or> c = CHR 0x5C then [CHR 0x5C, c]
      else if c = CHR 0x09 then [CHR 0x5C, CHR ''t'']
      else if c = CHR 0x0A then [CHR 0x5C, CHR ''n'']
      else if c = CHR 0x0D then [CHR 0x5C, CHR ''r'']
      else if printable c then [c]
      else [CHR 0x5C, CHR ''x''] @ hex2 c)"

definition repr_str :: "string \<Rightarrow> string" where
  "repr_str s =
     (let q = (if CHR 0x27 \<in> set s \<and> CHR 0x22 \<notin> set s then CHR 0x22 else CHR 0x27)
      in [q] @ concat (map (repr_char q) s) @ [q])"

fun py_repr :: "pyval \<Rightarrow> string" where
  "py_repr PyNone = ''None''"
| "py_repr (PyBool b) = (if b then ''True'' else ''False'')"
| "py_repr (PyInt i) = show_int i"
| "py_repr (PyFloat t) = t"
| "py_repr (PyStr s) = repr_str s"
| "py_repr (PyList xs) = ''['' @ join '', '' (map py_repr xs) @ '']''"
| "py_repr (PyDict kvs) =
     ''{'' @ join '', '' (map (\<lambda>kv. repr_str (fst kv) @ '': '' @ py_repr (snd kv)) kvs) @ ''}''"
| "py_repr (PyCallable t) = t"
| "py_repr (PyObj cls fields t) = t"

text \<open>\<open>str(x)\<close>: the string itself for a \<open>str\<close>, the \<open>repr\<close> otherwise.\<close>

definition py_str :: "pyval \<Rightarrow> string" where
  "py_str v = (case v of PyStr s \<Rightarrow> s | _ \<Rightarrow> py_repr v)"

text \<open>
  \<open>getattr(x, name)\<close> on a value. Of the built-in types modelled here none has an
  attribute called \<open>text\<close>, \<open>id\<close>, \<open>result\<close> or \<open>content\<close>, the only names the
  program asks a value for.
\<close>

definition no_attribute :: "string \<Rightarrow> pyexc" where
  "no_attribute name = PyExc AttributeError (''object has no attribute '' @ repr_str name)"

fun lookup_attr :: "(string \<times> attr_read) list \<Rightarrow> string \<Rightarrow> attr_read" where
  "lookup_attr fields name =
     (case map_of fields name of None \<Rightarrow> Inl (no_attribute name) | Some r \<Rightarrow> r)"

fun getattr_val :: "pyval \<Rightarrow> string \<Rightarrow> attr_read" where
  "getattr_val (PyObj cls fields t) name = lookup_attr fields name"
| "getattr_val v name = Inl (no_attribute name)"

text \<open>
  \<open>hasattr\<close> and the three-argument \<open>getattr\<close> swallow an \<open>AttributeError\<close> and
  nothing else: any other exception of the getter leaves through them.
\<close>

definition hasattr_of :: "attr_read \<Rightarrow> pyexc + bool" where
  "hasattr_of r =
     (case r of
        Inr v \<Rightarrow> Inr True
      | Inl e \<Rightarrow> if is_AttributeError e then Inr False else Inl e)"

definition getattr_default_of :: "attr_read \<Rightarrow> pyval \<Rightarrow> attr_read" where
  "getattr_default_of r d =
     (case r of
        Inr v \<Rightarrow> Inr v
      | Inl e \<Rightarrow> if is_AttributeError e then Inr d else Inl e)"

fun callable :: "pyval \<Rightarrow> bool" where
  "callable (PyCallable t) = True"
| "callable v = False"

section \<open>Messages and the conversation tracker\<close>

text \<open>
  A message of the engine: the name of its class and its attributes, in the order
  \<open>dir(message)\<close> lists them.
\<close>

record message =
  type_name :: string
  attrs :: "(string \<times> attr_read) list"

definition py_dir :: "message \<Rightarrow> string list" where
  "py_dir m = map fst (attrs m)"

definition getattr :: "message \<Rightarrow> string \<Rightarrow> attr_read" where
  "getattr m name = lookup_attr (attrs m) name"

record conversation_tracker =
  full_conversation :: "string list"

definition new_tracker :: conversation_tracker where
  "new_tracker = \<lparr>full_conversation = []\<rparr>"

text \<open>
  \<open>json.dumps(value, indent=2, default=str)\<close> belongs to Python's library; it enters as
  a parameter of this type, and may raise.
\<close>

type_synonym json_dumps = "(string \<times> pyval) list \<Rightarrow> pyexc + string"

text \<open>The lines of a list attribute: \<open>for i, item in enumerate(attr_value)\<close>.\<close>

fun item_lines :: "nat \<Rightarrow> pyval list \<Rightarrow> string" where
  "item_lines i [] = []"
| "item_lines i (item # items) =
     ''  ['' @ show_nat i @ '']: '' @ py_str item @ [CHR 0x0A] @ item_lines (Suc i) items"

text \<open>What the formatting of one value that is not \<open>None\<close> appends (lines 47 to 56).\<close>

fun format_value :: "json_dumps \<Rightarrow> string \<Rightarrow> pyval \<Rightarrow> pyexc + string" where
  "format_value dumps attr_name (PyList items) =
     Inr (attr_name @ '': ['' @ show_nat (length items) @ '' items]'' @ [CHR 0x0A]
          @ item_lines 0 items)"
| "format_value dumps attr_name (PyDict kvs) =
     (case dumps kvs of
        Inl e \<Rightarrow> Inl e
      | Inr text \<Rightarrow> Inr (attr_name @ '':'' @ [CHR 0x0A] @ text @ [CHR 0x0A]))"
| "format_value dumps attr_name v = Inr (attr_name @ '': '' @ py_str v @ [CHR 0x0A])"

definition error_line :: "string \<Rightarrow> pyexc \<Rightarrow> string" where
  "error_line attr_name e =
     attr_name @ '': <error accessing: '' @ exc_msg e @ ''>'' @ [CHR 0x0A]"

text \<open>
  The clause \<open>except Exception as e\<close> of lines 57 and 58: an \<open>Exception\<close> becomes a
  line of the entry, anything else leaves.
\<close>

definition except_Exception :: "string \<Rightarrow> pyexc \<Rightarrow> pyexc + string" where
  "except_Exception attr_name e =
     (if is_Exception e then Inr (error_line attr_name e) else Inl e)"

text \<open>The \<open>try\<close> block of one attribute (lines 43 to 58): what it appends to the entry.\<close>

definition field_text :: "json_dumps \<Rightarrow> message \<Rightarrow> string \<Rightarrow> pyexc + string" where
  "field_text dumps m attr_name =
     (case getattr m attr_name of
        Inl e \<Rightarrow> except_Exception attr_name e
      | Inr attr_value \<Rightarrow>
          if attr_value = PyNone then Inr []
          else (case format_value dumps attr_name attr_value of
                  Inl e \<Rightarrow> except_Exception attr_name e
                | Inr text \<Rightarrow> Inr text))"

text \<open>
  The loop over \<open>dir(message)\<close> (lines 41 to 58). The test of line 42 reads the
  attribute with \<open>getattr(message, attr_name, None)\<close> outside the \<open>try\<close> block.
\<close>

fun render_fields :: "json_dumps \<Rightarrow> message \<Rightarrow> string list \<Rightarrow> string \<Rightarrow> pyexc + string" where
  "render_fields dumps m [] entry = Inr entry"
| "render_fields dumps m (attr_name # names) entry =
     (if prefix ''_'' attr_name then render_fields dumps m names entry
      else (case getattr_default_of (getattr m attr_name) PyNone of
              Inl e \<Rightarrow> Inl e
            | Inr probe \<Rightarrow>
                if callable probe then render_fields dumps m names entry
                else (case field_text dumps m attr_name of
                        Inl e \<Rightarrow> Inl e
                      | Inr text \<Rightarrow> render_fields dumps m names (entry @ text))))"

definition header :: "int \<Rightarrow> message \<Rightarrow> string" where
  "header message_count m =
     ''=== Message '' @ show_int message_count @ '': '' @ type_name m @ '' ==='' @ [CHR 0x0A]"

definition separator :: string where
  "separator = [CHR 0x0A] @ replicate 80 CHR ''='' @ [CHR 0x0A, CHR 0x0A]"

definition add_message_to_transcript ::
  "json_dumps \<Rightarrow> conversation_tracker \<Rightarrow> int \<Rightarrow> message \<Rightarrow> pyexc + conversation_tracker" where
  "add_message_to_transcript dumps self message_count m =
     (case render_fields dumps m (py_dir m) (header message_count m) of
        Inl e \<Rightarrow> Inl e
      | Inr transcript_entry \<Rightarrow>
          Inr (self\<lparr>full_conversation := full_conversation self @ [transcript_entry @ separator]\<rparr>))"

definition get_transcript :: "conversation_tracker \<Rightarrow> string" where
  "get_transcript self = concat (full_conversation self)"

section \<open>The response loop of \<open>generate_with_sdk\<close>\<close>

text \<open>The local variables of lines 160 to 162, and the tracker.\<close>

record loop_state =
  generated_content :: string
  final_result_content :: string
  message_count :: int
  tracker :: conversation_tracker

definition initial_state :: loop_state where
  "initial_state =
     \<lparr>generated_content = [], final_result_content = [], message_count = 0,
      tracker = new_tracker\<rparr>"

text \<open>
  \<open>hasattr(message, name) and message.name\<close>: the value when the attribute is there
  and truthy.
\<close>

definition truthy_attr :: "message \<Rightarrow> string \<Rightarrow> pyexc + pyval option" where
  "truthy_attr m name =
     (case hasattr_of (getattr m name) of
        Inl e \<Rightarrow> Inl e
      | Inr present \<Rightarrow>
          if \<not> present then Inr None
          else (case getattr m name of
                  Inl e \<Rightarrow> Inl e
                | Inr v \<Rightarrow> Inr (if py_truthy v then Some v else None)))"

text \<open>
  The loop over the content blocks (lines 180 to 185). A \<open>text\<close> that is not a \<open>str\<close>
  has no \<open>strip\<close> to call. An exception leaves with the content gathered so far.
\<close>

fun collect_text :: "pyval list \<Rightarrow> string \<Rightarrow> (pyexc \<times> string) + string" where
  "collect_text [] generated = Inr generated"
| "collect_text (block # blocks) generated =
     (case hasattr_of (getattr_val block ''text'') of
        Inl e \<Rightarrow> Inl (e, generated)
      | Inr has_text \<Rightarrow>
          if \<not> has_text then collect_text blocks generated
          else (case hasattr_of (getattr_val block ''id'') of
                  Inl e \<Rightarrow> Inl (e, generated)
                | Inr has_id \<Rightarrow>
                    if has_id then collect_text blocks generated
                    else (case getattr_val block ''text'' of
                            Inl e \<Rightarrow> Inl (e, generated)
                          | Inr (PyStr t) \<Rightarrow>
                              (let text_content = strip t
                               in if text_content \<noteq> []
                                  then collect_text blocks (generated @ text_content @ [CHR 0x0A])
                                  else collect_text blocks generated)
                          | Inr v \<Rightarrow> Inl (no_attribute ''strip'', generated))))"

text \<open>
  The body of the loop for one message (lines 165 to 185). An exception leaves with the
  state the variables had when it was raised.
\<close>

definition handle_message ::
  "json_dumps \<Rightarrow> loop_state \<Rightarrow> message \<Rightarrow> (pyexc \<times> loop_state) + loop_state" where
  "handle_message dumps st m =
     (let st1 = st\<lparr>message_count := message_count st + 1\<rparr>
      in case add_message_to_transcript dumps (tracker st1) (message_count st1) m of
           Inl e \<Rightarrow> Inl (e, st1)
         | Inr tr \<Rightarrow>
             (let st2 = st1\<lparr>tracker := tr\<rparr>
              in case truthy_attr m ''result'' of
                   Inl e \<Rightarrow> Inl (e, st2)
                 | Inr (Some result) \<Rightarrow>
                     (let result_text = strip (py_str result)
                      in if result_text \<noteq> []
                         then Inr (st2\<lparr>final_result_content := result_text\<rparr>)
                         else Inr st2)
                 | Inr None \<Rightarrow>
                     (case truthy_attr m ''content'' of
                        Inl e \<Rightarrow> Inl (e, st2)
                      | Inr (Some (PyList blocks)) \<Rightarrow>
                          (case collect_text blocks (generated_content st2) of
                             Inl (e, g) \<Rightarrow> Inl (e, st2\<lparr>generated_content := g\<rparr>)
                           | Inr g \<Rightarrow> Inr (st2\<lparr>generated_content := g\<rparr>))
                      | Inr other \<Rightarrow> Inr st2)))"

fun receive_response :: "json_dumps \<Rightarrow> loop_state \<Rightarrow> message list \<Rightarrow> (pyexc \<times> loop_state) + loop_state" where
  "receive_response dumps st [] = Inr st"
| "receive_response dumps st (m # ms) =
     (case handle_message dumps st m of
        Inl failure \<Rightarrow> Inl failure
      | Inr st' \<Rightarrow> receive_response dumps st' ms)"

text \<open>Lines 188 to 193.\<close>

definition no_content :: string where
  "no_content = ''-- No content generated --''"

definition final_text :: "loop_state \<Rightarrow> string" where
  "final_text st =
     (if final_result_content st \<noteq> [] then final_result_content st
      else if generated_content st \<noteq> [] then strip (generated_content st)
      else no_content)"

text \<open>
  The engine is outside the program: one run of it is the messages its stream yields
  and, when the stream breaks off after them, the exception it raises.
\<close>

record engine_run =
  stream_messages :: "message list"
  stream_error :: "pyexc option"

definition consume_stream :: "json_dumps \<Rightarrow> engine_run \<Rightarrow> (pyexc \<times> loop_state) + loop_state" where
  "consume_stream dumps run =
     (case receive_response dumps initial_state (stream_messages run) of
        Inl failure \<Rightarrow> Inl failure
      | Inr st \<Rightarrow> (case stream_error run of Some e \<Rightarrow> Inl (e, st) | None \<Rightarrow> Inr st))"

text \<open>
  \<open>generate_with_sdk\<close>: the check of the server path (lines 94 to 96), the loop, the
  final text. The \<open>except\<close> clause of line 197 prints and raises again.
\<close>

definition generate_with_sdk ::
  "json_dumps \<Rightarrow> (string \<Rightarrow> bool) \<Rightarrow> bool \<Rightarrow> string option \<Rightarrow> engine_run
     \<Rightarrow> pyexc + string \<times> conversation_tracker" where
  "generate_with_sdk dumps path_exists use_mcp mcp_server_path run =
     (if use_mcp \<and> (case mcp_server_path of
                       None \<Rightarrow> True
                     | Some p \<Rightarrow> p = [] \<or> \<not> path_exists p)
      then Inl (PyExc ValueError (''MCP server not found at: '' @ py_str
                  (case mcp_server_path of None \<Rightarrow> PyNone | Some p \<Rightarrow> PyStr p)))
      else (case consume_stream dumps run of
              Inl (e, st) \<Rightarrow> Inl e
            | Inr st \<Rightarrow> Inr (final_text st, tracker st)))"

section \<open>Tagged sections\<close>

text \<open>
  \<open>re.search(r'<t>(.*?)</t>', content, re.DOTALL)\<close>, as the matcher runs it. At one
  start position, after the opening literal, the lazy group tries the closing literal
  first and takes one more character (any character: \<open>DOTALL\<close>) when it does not match.
  The search tries the start positions from left to right, the end of the text included.
  The result is \<open>group(1)\<close>.
\<close>

fun match_lazy_group :: "string \<Rightarrow> string \<Rightarrow> string option" where
  "match_lazy_group cls [] = (if prefix cls [] then Some [] else None)"
| "match_lazy_group cls (c # cs) =
     (if prefix cls (c # cs) then Some []
      else map_option ((#) c) (match_lazy_group cls cs))"

fun re_search_group :: "string \<Rightarrow> string \<Rightarrow> string \<Rightarrow> string option" where
  "re_search_group opn cls [] =
     (if prefix opn [] then match_lazy_group cls (drop (length opn) []) else None)"
| "re_search_group opn cls (c # cs) =
     (if prefix opn (c # cs)
      then (case match_lazy_group cls (drop (length opn) (c # cs)) of
              Some g \<Rightarrow> Some g
            | None \<Rightarrow> re_search_group opn cls cs)
      else re_search_group opn cls cs)"

definition extract_tagged_sections ::
  "string \<Rightarrow> string option \<times> string option \<times> string option" where
  "extract_tagged_sections content =
     (let summary_match = re_search_group ''<summary>'' ''</summary>'' content;
          feedback_match = re_search_group ''<feedback>'' ''</feedback>'' content;
          response_match = re_search_group ''<response>'' ''</response>'' content
      in (map_option strip summary_match,
          map_option strip feedback_match,
          map_option strip response_match))"

text \<open>
  The words of the specification: the first occurrence of the opening delimiter, the
  nearest closing delimiter after it, the text between them trimmed. \<open>str_find\<close> is
  the index of the first occurrence.
\<close>

fun str_find :: "string \<Rightarrow> string \<Rightarrow> nat option" where
  "str_find sub [] = (if prefix sub [] then Some 0 else None)"
| "str_find sub (c # cs) =
     (if prefix sub (c # cs) then Some 0 else map_option Suc (str_find sub cs))"

definition spec_section :: "string \<Rightarrow> string \<Rightarrow> string \<Rightarrow> string option" where
  "spec_section opn cls content =
     (case str_find opn content of
        None \<Rightarrow> None
      | Some i \<Rightarrow>
          (let rest = drop (i + length opn) content
           in case str_find cls rest of
                None \<Rightarrow> None
              | Some j \<Rightarrow> Some (strip (take j rest))))"

section \<open>The file system, the working directory and the trace of a run\<close>

text \<open>
  What the program does to its surroundings is recorded as a trace of events. A
  removal of a tree that exists fails or succeeds as the file system decides:
  \<open>rm_faults\<close> lists, for the removals to come, whether each one raises.
\<close>

datatype event =
    Chdir string
  | Rmtree string
  | RmtreeIgnoreErrors string
  | Sleep real
  | PrintRetry int real
  | PrintWarning pyexc

record world =
  cwd :: string
  dirs :: "string set"
  files :: "string \<rightharpoonup> string"
  rm_faults :: "bool list"
  trace :: "event list"

definition emit :: "event \<Rightarrow> world \<Rightarrow> world" where
  "emit e w = w\<lparr>trace := trace w @ [e]\<rparr>"

text \<open>
  A path that holds a NUL character is refused by the operating system calls with
  \<open>ValueError\<close>, which is not an \<open>OSError\<close>.
\<close>

definition embedded_null :: "string \<Rightarrow> bool" where
  "embedded_null path = (CHR 0x00 \<in> set path)"

text \<open>
  \<open>os.chdir(path)\<close>: \<open>None\<close> when nothing is raised. A directory that does not exist
  raises \<open>FileNotFoundError\<close> and the working directory stays.
\<close>

definition chdir :: "string \<Rightarrow> world \<Rightarrow> pyexc option \<times> world" where
  "chdir path w =
     (if embedded_null path then (Some (PyExc ValueError ''embedded null byte''), w)
      else if path \<notin> dirs w then (Some (PyExc FileNotFoundError path), w)
      else (None, emit (Chdir path) (w\<lparr>cwd := path\<rparr>)))"

text \<open>\<open>time.sleep(seconds)\<close> raises \<open>ValueError\<close> for a negative length.\<close>

definition sleep :: "real \<Rightarrow> world \<Rightarrow> pyexc option \<times> world" where
  "sleep seconds w =
     (if seconds < 0 then (Some (PyExc ValueError ''sleep length must be non-negative''), w)
      else (None, emit (Sleep seconds) w))"

text \<open>
  The removal itself, after the call is on the trace: \<open>None\<close> when nothing is raised.
  A tree that does not exist raises \<open>FileNotFoundError\<close>; a removal that fails leaves
  the tree in place.
\<close>

definition remove_tree :: "string \<Rightarrow> world \<Rightarrow> pyexc option \<times> world" where
  "remove_tree path w =
     (if embedded_null path then (Some (PyExc ValueError ''embedded null byte''), w)
      else if path \<notin> dirs w then (Some (PyExc FileNotFoundError path), w)
      else (case rm_faults w of
              [] \<Rightarrow> (None, w\<lparr>dirs := dirs w - {path}\<rparr>)
            | fault # faults \<Rightarrow>
                if fault then (Some (PyExc PermissionError path), w\<lparr>rm_faults := faults\<rparr>)
                else (None, w\<lparr>dirs := dirs w - {path}, rm_faults := faults\<rparr>)))"

text \<open>\<open>shutil.rmtree(path)\<close> and \<open>shutil.rmtree(path, ignore_errors=True)\<close>.\<close>

definition rmtree :: "string \<Rightarrow> world \<Rightarrow> pyexc option \<times> world" where
  "rmtree path w = remove_tree path (emit (Rmtree path) w)"

definition rmtree_ignore_errors :: "string \<Rightarrow> world \<Rightarrow> world" where
  "rmtree_ignore_errors path w = snd (remove_tree path (emit (RmtreeIgnoreErrors path) w))"

section \<open>\<open>cleanup_directory\<close>\<close>

text \<open>
  The loop over \<open>range(retries)\<close> (lines 228 to 241). The handler catches \<open>OSError\<close>;
  another exception of the removal leaves the function, and so does an exception that
  \<open>time.sleep\<close> raises inside the handler.
\<close>

fun cleanup_attempts ::
  "string \<Rightarrow> int \<Rightarrow> real \<Rightarrow> int list \<Rightarrow> world \<Rightarrow> (pyexc + bool) \<times> world" where
  "cleanup_attempts path retries delay [] w = (Inr False, w)"
| "cleanup_attempts path retries delay (attempt # rest) w =
     (case rmtree path w of
        (None, w1) \<Rightarrow> (Inr True, w1)
      | (Some e, w1) \<Rightarrow>
          if \<not> is_OSError e then (Inl e, w1)
          else if attempt < retries - 1
          then (case sleep delay (emit (PrintRetry (attempt + 1) delay) w1) of
                  (Some e', w2) \<Rightarrow> (Inl e', w2)
                | (None, w2) \<Rightarrow> cleanup_attempts path retries delay rest w2)
          else (Inr False, rmtree_ignore_errors path (emit (PrintWarning e) w1)))"

definition cleanup_directory :: "string \<Rightarrow> int \<Rightarrow> real \<Rightarrow> world \<Rightarrow> (pyexc + bool) \<times> world" where
  "cleanup_directory path retries delay w =
     cleanup_attempts path retries delay [0..retries - 1] w"



section \<open>\<open>write_results\<close>\<close>

text \<open>\<open>os.path.join\<close> of a directory and one more component.\<close>

definition os_path_join :: "string \<Rightarrow> string \<Rightarrow> string" where
  "os_path_join a b =
     (if prefix ''/'' b then b
      else if a = [] \<or> suffix ''/'' a then a @ b
      else a @ ''/'' @ b)"

text \<open>\<open>with open(path, 'w') as f\<close> and the writes to \<open>f\<close>: the file holds what was written.\<close>

definition write_file :: "string \<Rightarrow> string \<Rightarrow> (string \<rightharpoonup> string) \<Rightarrow> (string \<rightharpoonup> string)" where
  "write_file path text fs = fs(path \<mapsto> text)"

text \<open>\<open>if summary:\<close> on an optional \<open>str\<close>.\<close>

fun truthy_opt :: "string option \<Rightarrow> bool" where
  "truthy_opt None = False"
| "truthy_opt (Some s) = (s \<noteq> [])"

definition transcript_preamble :: string where
  "transcript_preamble =
     ''# Full Conversation Transcript'' @ [CHR 0x0A, CHR 0x0A]
     @ ''This file contains the complete conversation flow with all messages, tool calls, and responses.''
     @ [CHR 0x0A, CHR 0x0A]"

text \<open>
  The files of the results directory after \<open>write_results\<close> (lines 257 to 295); what it
  prints is left out.
\<close>

definition write_results ::
  "string \<Rightarrow> string \<Rightarrow> string option \<Rightarrow> string option \<Rightarrow> string option
     \<Rightarrow> conversation_tracker option \<Rightarrow> (string \<rightharpoonup> string) \<Rightarrow> (string \<rightharpoonup> string)" where
  "write_results results_dir content summary feedback response tracker_opt fs =
     (let fs1 = write_file (os_path_join results_dir ''output.txt'') content fs;
          fs2 = (if truthy_opt summary
                 then write_file (os_path_join results_dir ''summary.md'')
                        (''# Summary'' @ [CHR 0x0A, CHR 0x0A] @ the summary) fs1
                 else fs1);
          fs3 = (if truthy_opt feedback
                 then write_file (os_path_join results_dir ''feedback.md'')
                        (''# Tool Feedback'' @ [CHR 0x0A, CHR 0x0A] @ the feedback) fs2
                 else fs2);
          fs4 = (if truthy_opt response
                 then write_file (os_path_join results_dir ''response.txt'') (the response) fs3
                 else fs3)
      in (case tracker_opt of
            None \<Rightarrow> fs4
          | Some t \<Rightarrow>
              if full_conversation t \<noteq> []
              then write_file (os_path_join results_dir ''transcript.md'')
                     (transcript_preamble @ get_transcript t) fs4
              else fs4))"

section \<open>One session of \<open>main_async\<close>\<close>

text \<open>
  What one session is given: the flags, the engine's run, the two directories, and
  whether writing the results or copying the working directory raises.
\<close>

record session =
  no_mcp :: bool
  mcp_server_path :: "string option"
  path_exists :: "string \<Rightarrow> bool"
  engine :: engine_run
  results_dir :: string
  temp_dir :: string
  write_error :: "pyexc option"
  copy_error :: "pyexc option"

text \<open>\<open>copy_output_directory\<close> (lines 212 to 223).\<close>

definition copy_output_directory :: "pyexc option \<Rightarrow> string \<Rightarrow> string \<Rightarrow> world \<Rightarrow> pyexc option \<times> world" where
  "copy_output_directory fault src_dir res_dir w =
     (let out_dir = os_path_join res_dir ''out'';
          (raised, w1) = (if out_dir \<in> dirs w then rmtree out_dir w else (None, w))
      in case raised of
           Some e \<Rightarrow> (Some e, w1)
         | None \<Rightarrow>
             (case fault of
                Some e \<Rightarrow> (Some e, w1)
              | None \<Rightarrow> (None, w1\<lparr>dirs := insert out_dir (dirs w1)\<rparr>)))"

text \<open>
  The body of the \<open>except Exception\<close> clause (lines 398 to 401). The result is the exit
  status, or the exception that leaves the session.
\<close>

definition on_exception :: "string \<Rightarrow> string \<Rightarrow> world \<Rightarrow> (pyexc + nat) \<times> world" where
  "on_exception original_cwd tmp w =
     (case chdir original_cwd w of
        (Some e, w1) \<Rightarrow> (Inl e, w1)
      | (None, w1) \<Rightarrow>
          (case cleanup_directory tmp 3 1 w1 of
             (Inl e, w2) \<Rightarrow> (Inl e, w2)
           | (Inr removed, w2) \<Rightarrow> (Inr 1, w2)))"

text \<open>
  An exception raised inside the \<open>try\<close> block (lines 358 to 395): the clause of line 397
  takes it when it is an \<open>Exception\<close>; otherwise it leaves the session as it is.
\<close>

definition raised_in_try ::
  "pyexc \<Rightarrow> string \<Rightarrow> string \<Rightarrow> world \<Rightarrow> (pyexc + nat) \<times> world" where
  "raised_in_try e original_cwd tmp w =
     (if is_Exception e then on_exception original_cwd tmp w else (Inl e, w))"

text \<open>
  Lines 354 to 401. The first \<open>os.chdir\<close> stands before the \<open>try\<close>. What the session
  prints, the preview included, is left out.
\<close>

definition run_session :: "json_dumps \<Rightarrow> session \<Rightarrow> world \<Rightarrow> (pyexc + nat) \<times> world" where
  "run_session dumps s w =
     (let original_cwd = cwd w
      in case chdir (temp_dir s) w of
           (Some e, w1) \<Rightarrow> (Inl e, w1)
         | (None, w1) \<Rightarrow>
             (case generate_with_sdk dumps (path_exists s) (\<not> no_mcp s) (mcp_server_path s)
                     (engine s) of
                Inl e \<Rightarrow> raised_in_try e original_cwd (temp_dir s) w1
              | Inr (generated, tr) \<Rightarrow>
                  (case chdir original_cwd w1 of
                     (Some e, w2) \<Rightarrow> raised_in_try e original_cwd (temp_dir s) w2
                   | (None, w2) \<Rightarrow>
                       (let (summary, feedback, response) = extract_tagged_sections generated
                        in case write_error s of
                             Some e \<Rightarrow> raised_in_try e original_cwd (temp_dir s) w2
                           | None \<Rightarrow>
                               (let w3 = w2\<lparr>files := write_results (results_dir s) generated
                                            summary feedback response (Some tr) (files w2)\<rparr>
                                in case copy_output_directory (copy_error s) (temp_dir s)
                                          (results_dir s) w3 of
                                     (Some e, w4) \<Rightarrow>
                                       raised_in_try e original_cwd (temp_dir s) w4
                                   | (None, w4) \<Rightarrow>
                                       (case cleanup_directory (temp_dir s) 3 1 w4 of
                                          (Inl e, w5) \<Rightarrow>
                                            raised_in_try e original_cwd (temp_dir s) w5
                                        | (Inr removed, w5) \<Rightarrow> (Inr 0, w5)))))))"

text \<open>
  The working directory at each removal of \<open>path\<close> on a trace that starts in
  directory \<open>c\<close>.
\<close>

fun cwd_at_removals :: "string \<Rightarrow> string \<Rightarrow> event list \<Rightarrow> string list" where
  "cwd_at_removals path c [] = []"
| "cwd_at_removals path c (Chdir p # es) = cwd_at_removals path p es"
| "cwd_at_removals path c (Rmtree p # es) =
     (if p = path then c # cwd_at_removals path c es else cwd_at_removals path c es)"
| "cwd_at_removals path c (RmtreeIgnoreErrors p # es) =
     (if p = path then c # cwd_at_removals path c es else cwd_at_removals path c es)"
| "cwd_at_removals path c (e # es) = cwd_at_removals path c es"

section \<open>The final text, in the words of the specification\<close>

text \<open>
  The value of an attribute of a message when it is there and truthy; the stripped
  string form of such a \<open>result\<close> when it is not empty; the stripped, non-empty texts
  of the blocks that have a \<open>text\<close> attribute and no \<open>id\<close> attribute, for a message
  without a truthy \<open>result\<close> whose \<open>content\<close> is a list.
\<close>

definition truthy_field :: "message \<Rightarrow> string \<Rightarrow> pyval option" where
  "truthy_field m name =
     (case getattr m name of
        Inl e \<Rightarrow> None
      | Inr v \<Rightarrow> if py_truthy v then Some v else None)"

definition result_text :: "message \<Rightarrow> string option" where
  "result_text m =
     (case truthy_field m ''result'' of
        None \<Rightarrow> None
      | Some v \<Rightarrow> if strip (py_str v) \<noteq> [] then Some (strip (py_str v)) else None)"

definition has_attr :: "pyval \<Rightarrow> string \<Rightarrow> bool" where
  "has_attr b name = (case getattr_val b name of Inl e \<Rightarrow> False | Inr v \<Rightarrow> True)"

fun block_fragments :: "pyval list \<Rightarrow> string list" where
  "block_fragments [] = []"
| "block_fragments (b # bs) =
     (if has_attr b ''text'' \<and> \<not> has_attr b ''id''
      then (case getattr_val b ''text'' of
              Inr (PyStr t) \<Rightarrow>
                if strip t \<noteq> [] then strip t # block_fragments bs else block_fragments bs
            | other \<Rightarrow> block_fragments bs)
      else block_fragments bs)"

definition message_fragments :: "message \<Rightarrow> string list" where
  "message_fragments m =
     (if truthy_field m ''result'' \<noteq> None then []
      else (case truthy_field m ''content'' of
              Some (PyList blocks) \<Rightarrow> block_fragments blocks
            | other \<Rightarrow> []))"

definition spec_final_text :: "message list \<Rightarrow> string" where
  "spec_final_text msgs =
     (let results = List.map_filter result_text msgs;
          fragments = concat (map message_fragments msgs)
      in if results \<noteq> [] then last results
         else if fragments \<noteq> [] then strip (join [CHR 0x0A] fragments)
         else no_content)"

section \<open>Messages that can be read\<close>

text \<open>
  A sufficient condition for the loop to run to its end: every attribute of a message
  either gives a value or raises \<open>AttributeError\<close>, and so do the \<open>text\<close> and \<open>id\<close>
  of every block of a truthy \<open>content\<close> list, where a block with a \<open>text\<close> and
  without an \<open>id\<close> has a \<open>str\<close> as its text.
\<close>

definition readable :: "attr_read \<Rightarrow> bool" where
  "readable r = (case r of Inl e \<Rightarrow> is_AttributeError e | Inr v \<Rightarrow> True)"

definition block_readable :: "pyval \<Rightarrow> bool" where
  "block_readable b =
     (readable (getattr_val b ''text'') \<and> readable (getattr_val b ''id'')
      \<and> (if has_attr b ''text'' \<and> \<not> has_attr b ''id''
         then (case getattr_val b ''text'' of Inr (PyStr t) \<Rightarrow> True | other \<Rightarrow> False)
         else True))"

definition message_readable :: "message \<Rightarrow> bool" where
  "message_readable m =
     (list_all (\<lambda>field. readable (snd field)) (attrs m)
      \<and> (case truthy_field m ''content'' of
           Some (PyList blocks) \<Rightarrow> list_all block_readable blocks
         | other \<Rightarrow> True))"

section \<open>The search of \<open>extract_tagged_sections\<close> finds the first pair of delimiters\<close>

lemma match_lazy_group_find:
  "match_lazy_group cls s = map_option (\<lambda>j. take j s) (str_find cls s)"
  by (induction s) (simp_all add: option.map_comp comp_def)

lemma str_find_None_iff: "str_find sub s = None \<longleftrightarrow> \<not> sublist sub s"
  by (induction s) (auto simp: sublist_Cons_right)

lemma str_find_prefix: "prefix sub s \<Longrightarrow> str_find sub s = Some 0"
  by (cases s) simp_all

lemma str_find_split:
  "str_find sub s = Some i \<Longrightarrow> s = take i s @ sub @ drop (i + length sub) s"
proof (induction s arbitrary: i)
  case Nil
  then show ?case by (simp split: if_splits)
next
  case (Cons c cs)
  show ?case
  proof (cases "prefix sub (c # cs)")
    case True
    with Cons.prems have "i = 0" by simp
    with True show ?thesis by (auto simp: prefix_def)
  next
    case False
    with Cons.prems obtain k where k: "str_find sub cs = Some k" "i = Suc k" by auto
    from Cons.IH [OF k(1)] k(2) show ?thesis by simp
  qed
qed

lemma str_find_first:
  "str_find sub s = Some i \<Longrightarrow> k < i \<Longrightarrow> \<not> prefix sub (drop k s)"
proof (induction s arbitrary: i k)
  case Nil
  then show ?case by (simp split: if_splits)
next
  case (Cons c cs)
  from Cons.prems have np: "\<not> prefix sub (c # cs)" by (auto split: if_splits)
  with Cons.prems obtain j where j: "str_find sub cs = Some j" "i = Suc j" by auto
  show ?case
  proof (cases k)
    case 0
    with np show ?thesis by simp
  next
    case (Suc k')
    with Cons.prems j have "k' < j" by simp
    from Cons.IH [OF j(1) this] Suc show ?thesis by simp
  qed
qed

lemma str_find_le:
  "str_find sub (pre @ sub @ post) = Some i \<Longrightarrow> i \<le> length pre"
proof (induction pre arbitrary: i)
  case Nil
  then show ?case by (simp add: str_find_prefix)
next
  case (Cons p ps)
  show ?case
  proof (cases "prefix sub ((p # ps) @ sub @ post)")
    case True
    with Cons.prems show ?thesis by simp
  next
    case False
    with Cons.prems obtain j where j: "str_find sub (ps @ sub @ post) = Some j" "i = Suc j"
      by auto
    from Cons.IH [OF j(1)] j(2) show ?thesis by simp
  qed
qed

lemma sublist_drop_trans: "sublist sub (drop n s) \<Longrightarrow> sublist sub s"
  using sublist_drop sublist_order.order_trans by blast

lemma re_search_group_find:
  "re_search_group opn cls s =
     (case str_find opn s of
        None \<Rightarrow> None
      | Some i \<Rightarrow> match_lazy_group cls (drop (i + length opn) s))"
proof (induction s)
  case Nil
  show ?case by simp
next
  case (Cons c cs)
  show ?case
  proof (cases "prefix opn (c # cs)")
    case False
    with Cons.IH show ?thesis by (simp split: option.splits)
  next
    case True
    show ?thesis
    proof (cases "match_lazy_group cls (drop (length opn) (c # cs))")
      case (Some g)
      with True show ?thesis by simp
    next
      case None
      then have no: "\<not> sublist cls (drop (length opn) (c # cs))"
        by (simp add: match_lazy_group_find str_find_None_iff)
      have "re_search_group opn cls cs = None"
      proof (cases "str_find opn cs")
        case None
        with Cons.IH show ?thesis by simp
      next
        case (Some i)
        have "drop (i + length opn) cs = drop (Suc i) (drop (length opn) (c # cs))"
          by (simp add: add.commute)
        with no have "\<not> sublist cls (drop (i + length opn) cs)"
          using sublist_drop_trans by metis
        then have "match_lazy_group cls (drop (i + length opn) cs) = None"
          by (simp add: match_lazy_group_find str_find_None_iff)
        with Cons.IH Some show ?thesis by simp
      qed
      with True None show ?thesis by simp
    qed
  qed
qed

lemma re_search_group_spec:
  "map_option strip (re_search_group opn cls s) = spec_section opn cls s"
  by (simp add: re_search_group_find spec_section_def match_lazy_group_find Let_def
      split: option.splits)

lemma spec_section_None_iff:
  "spec_section opn cls s = None \<longleftrightarrow> \<not> (\<exists>pre mid post. s = pre @ opn @ mid @ cls @ post)"
proof
  assume none: "spec_section opn cls s = None"
  show "\<not> (\<exists>pre mid post. s = pre @ opn @ mid @ cls @ post)"
  proof
    assume "\<exists>pre mid post. s = pre @ opn @ mid @ cls @ post"
    then obtain pre mid post where s: "s = pre @ opn @ mid @ cls @ post" by blast
    then have "sublist opn s" by (auto simp: sublist_def)
    then obtain i where i: "str_find opn s = Some i"
      using str_find_None_iff by (cases "str_find opn s") auto
    with s have le: "i \<le> length pre" using str_find_le by blast
    have "drop (length pre - i) (drop (i + length opn) s) = mid @ cls @ post"
      using le s by (simp add: add.commute)
    then have "sublist cls (drop (length pre - i) (drop (i + length opn) s))"
      by (simp add: sublist_def) (metis)
    then have "sublist cls (drop (i + length opn) s)" by (rule sublist_drop_trans)
    then have "str_find cls (drop (i + length opn) s) \<noteq> None" by (simp add: str_find_None_iff)
    with i none show False by (auto simp: spec_section_def Let_def split: option.splits)
  qed
next
  assume no: "\<not> (\<exists>pre mid post. s = pre @ opn @ mid @ cls @ post)"
  show "spec_section opn cls s = None"
  proof (rule ccontr)
    assume "spec_section opn cls s \<noteq> None"
    then obtain i j where i: "str_find opn s = Some i"
      and j: "str_find cls (drop (i + length opn) s) = Some j"
      by (auto simp: spec_section_def Let_def split: option.splits)
    from str_find_split [OF i] str_find_split [OF j]
    have "s = take i s @ opn @ take j (drop (i + length opn) s) @ cls
              @ drop (j + length cls) (drop (i + length opn) s)" by simp
    with no show False by blast
  qed
qed

lemma str_find_unique_head:
  assumes "sub \<noteq> []" "hd sub \<notin> set (tl sub)" "\<not> sublist sub pre"
  shows "str_find sub (pre @ sub @ rest) = Some (length pre)"
  using assms(3)
proof (induction pre)
  case Nil
  show ?case by (simp add: str_find_prefix)
next
  case (Cons p ps)
  then have np: "\<not> prefix sub (p # ps)" and ns: "\<not> sublist sub ps"
    by (auto simp: sublist_Cons_right)
  have "\<not> prefix sub ((p # ps) @ sub @ rest)"
  proof
    assume "prefix sub ((p # ps) @ sub @ rest)"
    then have "prefix sub (p # ps) \<or> (\<exists>us. sub = (p # ps) @ us \<and> prefix us (sub @ rest))"
      by (simp only: prefix_append)
    with np obtain us where us: "sub = (p # ps) @ us" "prefix us (sub @ rest)"
      by blast
    from us(1) np have "us \<noteq> []" by auto
    with us(2) assms(1) have "hd us = hd sub"
      by (cases us; cases sub) (auto simp: prefix_Cons)
    moreover from us(1) \<open>us \<noteq> []\<close> have "hd us \<in> set (tl sub)"
      by (cases us) auto
    ultimately show False using assms(2) by simp
  qed
  with Cons.IH [OF ns] show ?case by simp
qed

lemma spec_section_block:
  assumes "opn \<noteq> []" "hd opn \<notin> set (tl opn)" "cls \<noteq> []" "hd cls \<notin> set (tl cls)"
    and "content = pre @ opn @ inner @ cls @ post"
    and "\<not> sublist opn pre" "\<not> sublist cls inner"
  shows "spec_section opn cls content = Some (strip inner)"
proof -
  have i: "str_find opn content = Some (length pre)"
    unfolding assms(5) using assms(1,2,6) by (rule str_find_unique_head)
  have rest: "drop (length pre + length opn) content = inner @ cls @ post"
    by (simp add: assms(5))
  have j: "str_find cls (inner @ cls @ post) = Some (length inner)"
    using assms(3,4,7) by (rule str_find_unique_head)
  show ?thesis by (simp add: spec_section_def i rest j)
qed

text \<open>
  Claim C2. For each of the three names, \<open>extract_tagged_sections\<close> returns the text
  between the first occurrence of the opening tag and the nearest closing tag after it,
  trimmed (\<open>spec_section\<close>, which follows the words of the specification); the section
  is \<open>None\<close> exactly when the text holds no opening tag followed by a closing tag.
  The function is total: nothing is raised when a delimiter is missing.
\<close>

theorem extract_tagged_sections_first_pair:
  "extract_tagged_sections content =
     (spec_section ''<summary>'' ''</summary>'' content,
      spec_section ''<feedback>'' ''</feedback>'' content,
      spec_section ''<response>'' ''</response>'' content)
   \<and> (fst (extract_tagged_sections content) = None \<longleftrightarrow>
        \<not> (\<exists>pre mid post. content = pre @ ''<summary>'' @ mid @ ''</summary>'' @ post))
   \<and> (fst (snd (extract_tagged_sections content)) = None \<longleftrightarrow>
        \<not> (\<exists>pre mid post. content = pre @ ''<feedback>'' @ mid @ ''</feedback>'' @ post))
   \<and> (snd (snd (extract_tagged_sections content)) = None \<longleftrightarrow>
        \<not> (\<exists>pre mid post. content = pre @ ''<response>'' @ mid @ ''</response>'' @ post))"
proof -
  have eq: "extract_tagged_sections content =
     (spec_section ''<summary>'' ''</summary>'' content,
      spec_section ''<feedback>'' ''</feedback>'' content,
      spec_section ''<response>'' ''</response>'' content)"
    by (simp only: extract_tagged_sections_def Let_def re_search_group_spec)
  show ?thesis
    unfolding eq fst_conv snd_conv
    by (simp only: spec_section_None_iff simp_thms)
qed

text \<open>
  Claim C3, amended: a block gives its section when its opening tag is the first
  opening tag of its name in the whole text and its inner text holds no closing tag of
  its own name. For such a block \<open><summary>a</summary>\<close> the summary is the trimmed
  \<open>a\<close>; likewise for feedback and response. The closing tags, and the opening tags of
  the two other names, may stand anywhere, so the blocks may come in any order and may
  hold the names and the closing tags of the others; an opening tag of the block's own
  name may not stand before it, not even inside another block.
\<close>

theorem extract_tagged_sections_blocks:
  "(content = p1 @ ''<summary>'' @ a @ ''</summary>'' @ q1
      \<and> \<not> sublist ''<summary>'' p1 \<and> \<not> sublist ''</summary>'' a
      \<longrightarrow> fst (extract_tagged_sections content) = Some (strip a))
   \<and> (content = p2 @ ''<feedback>'' @ b @ ''</feedback>'' @ q2
      \<and> \<not> sublist ''<feedback>'' p2 \<and> \<not> sublist ''</feedback>'' b
      \<longrightarrow> fst (snd (extract_tagged_sections content)) = Some (strip b))
   \<and> (content = p3 @ ''<response>'' @ c @ ''</response>'' @ q3
      \<and> \<not> sublist ''<response>'' p3 \<and> \<not> sublist ''</response>'' c
      \<longrightarrow> snd (snd (extract_tagged_sections content)) = Some (strip c))"
proof -
  have eq: "extract_tagged_sections content =
     (spec_section ''<summary>'' ''</summary>'' content,
      spec_section ''<feedback>'' ''</feedback>'' content,
      spec_section ''<response>'' ''</response>'' content)"
    by (simp only: extract_tagged_sections_def Let_def re_search_group_spec)
  have s: "spec_section ''<summary>'' ''</summary>'' content = Some (strip a)"
    if "content = p1 @ ''<summary>'' @ a @ ''</summary>'' @ q1"
      "\<not> sublist ''<summary>'' p1" "\<not> sublist ''</summary>'' a"
    by (rule spec_section_block [OF _ _ _ _ that]) simp_all
  have f: "spec_section ''<feedback>'' ''</feedback>'' content = Some (strip b)"
    if "content = p2 @ ''<feedback>'' @ b @ ''</feedback>'' @ q2"
      "\<not> sublist ''<feedback>'' p2" "\<not> sublist ''</feedback>'' b"
    by (rule spec_section_block [OF _ _ _ _ that]) simp_all
  have r: "spec_section ''<response>'' ''</response>'' content = Some (strip c)"
    if "content = p3 @ ''<response>'' @ c @ ''</response>'' @ q3"
      "\<not> sublist ''<response>'' p3" "\<not> sublist ''</response>'' c"
    by (rule spec_section_block [OF _ _ _ _ that]) simp_all
  show ?thesis
    unfolding eq fst_conv snd_conv using s f r by blast
qed


text \<open>
  The blocks in the order response, feedback, summary; the feedback holds the word
  summary and a closing response tag.
\<close>

theorem extract_tagged_sections_blocks_witness:
  "extract_tagged_sections
     ''<response>R</response> x <feedback>the summary and </response></feedback><summary> S </summary>''
   = (Some ''S'', Some ''the summary and </response>'', Some ''R'')"
proof -
  let ?t = "''<response>R</response> x <feedback>the summary and </response></feedback><summary> S </summary>''"
  have ns: "\<not> sublist ''<summary>'' ''<response>R</response> x <feedback>the summary and </response></feedback>''"
    "\<not> sublist ''</summary>'' '' S ''"
    "\<not> sublist ''<feedback>'' ''<response>R</response> x ''"
    "\<not> sublist ''</feedback>'' ''the summary and </response>''"
    "\<not> sublist ''<response>'' ''''"
    "\<not> sublist ''</response>'' ''R''"
    by (simp_all add: sublist_code)
  have st: "strip '' S '' = ''S''" "strip ''the summary and </response>'' = ''the summary and </response>''"
    "strip ''R'' = ''R''"
    by (simp_all add: strip_def isspace_def)
  from extract_tagged_sections_blocks [of ?t
      "''<response>R</response> x <feedback>the summary and </response></feedback>''" "'' S ''" "''''"
      "''<response>R</response> x ''" "''the summary and </response>''" "''<summary> S </summary>''"
      "''''" "''R''" "'' x <feedback>the summary and </response></feedback><summary> S </summary>''"]
  have "fst (extract_tagged_sections ?t) = Some (strip '' S '')"
    "fst (snd (extract_tagged_sections ?t)) = Some (strip ''the summary and </response>'')"
    "snd (snd (extract_tagged_sections ?t)) = Some (strip ''R'')"
    using ns by simp_all
  then show ?thesis unfolding st by (metis prod.collapse)
qed

text \<open>
  Claim C3 as stated lets the content of one block be anything. Three well-formed
  blocks, the feedback holding the opening tag of the summary: the summary starts
  inside the feedback block and runs across its closing tag.
\<close>

theorem extract_tagged_sections_stray_tag_counterexample:
  "extract_tagged_sections
     ''<feedback>the <summary> tag is odd</feedback><summary>X</summary><response>R</response>''
   = (Some ''tag is odd</feedback><summary>X'', Some ''the <summary> tag is odd'', Some ''R'')"
  by (simp add: extract_tagged_sections_def strip_def isspace_def)

section \<open>The attempts of \<open>cleanup_directory\<close>\<close>

lemma rmtree_raises_OSError:
  "\<not> embedded_null path \<Longrightarrow> rmtree path w = (Some e, w1) \<Longrightarrow> is_OSError e"
  by (auto simp: rmtree_def remove_tree_def split: if_splits list.splits)

lemma sleep_nonnegative: "0 \<le> delay \<Longrightarrow> sleep delay w = (None, emit (Sleep delay) w)"
  by (simp add: sleep_def)

lemma cleanup_attempts_never_raises:
  assumes "\<not> embedded_null path" "0 \<le> delay"
  shows "\<exists>b w'. cleanup_attempts path retries delay as w = (Inr b, w')"
proof (induction as arbitrary: w)
  case Nil
  show ?case by auto
next
  case (Cons a as)
  obtain r w1 where r: "rmtree path w = (r, w1)" by (cases "rmtree path w")
  show ?case
  proof (cases r)
    case None
    with r show ?thesis by auto
  next
    case (Some e)
    with r have "is_OSError e" using rmtree_raises_OSError [OF assms(1)] by blast
    with r Some Cons.IH show ?thesis by (auto simp: sleep_nonnegative [OF assms(2)])
  qed
qed

lemma cleanup_directory_never_raises:
  "\<not> embedded_null path \<Longrightarrow> 0 \<le> delay \<Longrightarrow>
     \<exists>b w'. cleanup_directory path retries delay w = (Inr b, w')"
  unfolding cleanup_directory_def by (rule cleanup_attempts_never_raises)







text \<open>
  A negative delay: the first failed attempt that is followed by another one raises
  \<open>ValueError\<close> out of the handler, after the notice.
\<close>

lemma cleanup_directory_negative_delay:
  assumes "delay < 0" "1 < retries" "\<not> embedded_null path" "path \<notin> dirs w"
  shows "cleanup_directory path retries delay w =
     (Inl (PyExc ValueError ''sleep length must be non-negative''),
      w\<lparr>trace := trace w @ [Rmtree path, PrintRetry 1 delay]\<rparr>)"
proof -
  have le: "(0::int) \<le> retries - 1" using assms(2) by simp
  show ?thesis
    unfolding cleanup_directory_def
    using assms
    by (subst upto_rec1 [OF le])
      (simp add: rmtree_def remove_tree_def emit_def sleep_def)
qed

text \<open>A path with a NUL character: the first removal raises \<open>ValueError\<close>.\<close>

lemma cleanup_directory_embedded_null:
  assumes "embedded_null path" "0 < retries"
  shows "cleanup_directory path retries delay w =
     (Inl (PyExc ValueError ''embedded null byte''), w\<lparr>trace := trace w @ [Rmtree path]\<rparr>)"
proof -
  have le: "(0::int) \<le> retries - 1" using assms(2) by simp
  show ?thesis
    unfolding cleanup_directory_def
    using assms
    by (subst upto_rec1 [OF le]) (simp add: rmtree_def remove_tree_def emit_def)
qed


lemma embedded_null_tmp_ws: "\<not> embedded_null ''/tmp/ws''"
  by (simp add: embedded_null_def)






section \<open>The files \<open>write_results\<close> writes\<close>

lemma os_path_join_relative:
  "\<exists>p. \<forall>n. \<not> prefix ''/'' n \<longrightarrow> os_path_join d n = p @ n"
proof (cases "d = [] \<or> suffix ''/'' d")
  case True
  then have "\<forall>n. \<not> prefix ''/'' n \<longrightarrow> os_path_join d n = d @ n"
    by (simp add: os_path_join_def)
  then show ?thesis by blast
next
  case False
  then have "\<forall>n. \<not> prefix ''/'' n \<longrightarrow> os_path_join d n = (d @ ''/'') @ n"
    by (simp add: os_path_join_def)
  then show ?thesis by blast
qed

lemma result_paths:
  obtains p where
    "os_path_join d ''output.txt'' = p @ ''output.txt''"
    "os_path_join d ''summary.md'' = p @ ''summary.md''"
    "os_path_join d ''feedback.md'' = p @ ''feedback.md''"
    "os_path_join d ''response.txt'' = p @ ''response.txt''"
    "os_path_join d ''transcript.md'' = p @ ''transcript.md''"
proof -
  from os_path_join_relative [of d] obtain p
    where p: "\<And>n. \<not> prefix ''/'' n \<Longrightarrow> os_path_join d n = p @ n" by blast
  show thesis
    by (rule that [of p]) (simp_all add: p)
qed

text \<open>
  Claim C8, amended: a section file is written exactly when its section is a non-empty
  text. After \<open>write_results\<close>, \<open>output.txt\<close> holds the full final text;
  \<open>summary.md\<close> holds the heading and the summary when the summary is a non-empty text
  and is left as it was otherwise; likewise \<open>feedback.md\<close> (with its heading) and
  \<open>response.txt\<close> (without one); \<open>transcript.md\<close> holds the preamble and the transcript
  when a tracker with at least one recorded entry is given and is left as it was
  otherwise.
\<close>

theorem write_results_files:
  "write_results d content summary feedback response tracker_opt fs
       (os_path_join d ''output.txt'') = Some content
   \<and> write_results d content summary feedback response tracker_opt fs
       (os_path_join d ''summary.md'')
     = (if truthy_opt summary then Some (''# Summary'' @ [CHR 0x0A, CHR 0x0A] @ the summary)
        else fs (os_path_join d ''summary.md''))
   \<and> write_results d content summary feedback response tracker_opt fs
       (os_path_join d ''feedback.md'')
     = (if truthy_opt feedback
        then Some (''# Tool Feedback'' @ [CHR 0x0A, CHR 0x0A] @ the feedback)
        else fs (os_path_join d ''feedback.md''))
   \<and> write_results d content summary feedback response tracker_opt fs
       (os_path_join d ''response.txt'')
     = (if truthy_opt response then Some (the response)
        else fs (os_path_join d ''response.txt''))
   \<and> write_results d content summary feedback response tracker_opt fs
       (os_path_join d ''transcript.md'')
     = (case tracker_opt of
          None \<Rightarrow> fs (os_path_join d ''transcript.md'')
        | Some t \<Rightarrow>
            if full_conversation t \<noteq> []
            then Some (transcript_preamble @ get_transcript t)
            else fs (os_path_join d ''transcript.md''))"
proof -
  obtain p where p:
    "os_path_join d ''output.txt'' = p @ ''output.txt''"
    "os_path_join d ''summary.md'' = p @ ''summary.md''"
    "os_path_join d ''feedback.md'' = p @ ''feedback.md''"
    "os_path_join d ''response.txt'' = p @ ''response.txt''"
    "os_path_join d ''transcript.md'' = p @ ''transcript.md''"
    by (rule result_paths)
  show ?thesis
    unfolding p write_results_def Let_def write_file_def
    by (simp split: option.splits)
qed

text \<open>
  Claim C8 as stated writes \<open>summary.md\<close> whenever a summary was extracted. The text
  \<open><summary> </summary>\<close> has a summary section, the empty text, and no \<open>summary.md\<close>
  is written for it.
\<close>

theorem write_results_empty_section_counterexample:
  "extract_tagged_sections ''<summary> </summary>'' = (Some [], None, None)
   \<and> (case extract_tagged_sections ''<summary> </summary>'' of
        (summary, feedback, response) \<Rightarrow>
          write_results ''results'' ''<summary> </summary>'' summary feedback response None
            Map.empty) (os_path_join ''results'' ''summary.md'') = None"
proof -
  have e: "extract_tagged_sections ''<summary> </summary>'' = (Some [], None, None)"
    by (simp add: extract_tagged_sections_def strip_def isspace_def)
  show ?thesis
    unfolding e by (simp add: write_results_def write_file_def os_path_join_def)
qed

section \<open>The working directory across a session\<close>

lemma chdir_cases:
  "(chdir path w = (None, w\<lparr>cwd := path, trace := trace w @ [Chdir path]\<rparr>)
      \<and> \<not> embedded_null path \<and> path \<in> dirs w)
   \<or> (\<exists>e. chdir path w = (Some e, w) \<and> is_Exception e
          \<and> (embedded_null path \<or> path \<notin> dirs w))"
  by (simp add: chdir_def emit_def)

lemma chdir_ok:
  "\<not> embedded_null path \<Longrightarrow> path \<in> dirs w \<Longrightarrow>
     chdir path w = (None, w\<lparr>cwd := path, trace := trace w @ [Chdir path]\<rparr>)"
  by (simp add: chdir_def emit_def)

lemma remove_tree_frame:
  "trace (snd (remove_tree path w)) = trace w" "cwd (snd (remove_tree path w)) = cwd w"
  by (simp_all add: remove_tree_def split: list.splits)

lemma rmtree_frame:
  "trace (snd (rmtree path w)) = trace w @ [Rmtree path]" "cwd (snd (rmtree path w)) = cwd w"
  by (simp_all add: rmtree_def remove_tree_frame emit_def)

lemma rmtree_ignore_errors_frame:
  "trace (rmtree_ignore_errors path w) = trace w @ [RmtreeIgnoreErrors path]"
  "cwd (rmtree_ignore_errors path w) = cwd w"
  by (simp_all add: rmtree_ignore_errors_def remove_tree_frame emit_def)

lemma cleanup_attempts_frame:
  "cwd (snd (cleanup_attempts path retries delay as w)) = cwd w
   \<and> (\<exists>evs. trace (snd (cleanup_attempts path retries delay as w)) = trace w @ evs
            \<and> (\<forall>p. Chdir p \<notin> set evs)
            \<and> (as \<noteq> [] \<longrightarrow> Rmtree path \<in> set evs))"
proof (induction as arbitrary: w)
  case Nil
  show ?case by simp
next
  case (Cons a as)
  obtain r w1 where r: "rmtree path w = (r, w1)" by (cases "rmtree path w")
  with rmtree_frame [of path w]
  have w1: "trace w1 = trace w @ [Rmtree path]" "cwd w1 = cwd w" by simp_all
  show ?case
  proof (cases r)
    case None
    with r w1 show ?thesis by simp
  next
    case (Some e)
    show ?thesis
    proof (cases "is_OSError e \<and> a < retries - 1")
      case True
      show ?thesis
      proof (cases "delay < 0")
        case neg: True
        with r Some True w1 show ?thesis by (simp add: sleep_def emit_def)
      next
        case False
        let ?w2 = "emit (Sleep delay) (emit (PrintRetry (a + 1) delay) w1)"
        from Cons.IH [of ?w2] obtain evs where
          evs: "cwd (snd (cleanup_attempts path retries delay as ?w2)) = cwd ?w2"
            "trace (snd (cleanup_attempts path retries delay as ?w2)) = trace ?w2 @ evs"
            "\<forall>p. Chdir p \<notin> set evs"
          by blast
        have "trace ?w2 = trace w @ [Rmtree path, PrintRetry (a + 1) delay, Sleep delay]"
          "cwd ?w2 = cwd w"
          using w1 by (simp_all add: emit_def)
        with evs r Some True False show ?thesis by (simp add: sleep_def)
      qed
    next
      case False
      with r Some w1 show ?thesis
        by (auto simp: rmtree_ignore_errors_frame emit_def)
    qed
  qed
qed

lemma cleanup_directory_frame:
  "cwd (snd (cleanup_directory path 3 delay w)) = cwd w
   \<and> (\<exists>evs. trace (snd (cleanup_directory path 3 delay w)) = trace w @ evs
            \<and> (\<forall>p. Chdir p \<notin> set evs) \<and> Rmtree path \<in> set evs)"
proof -
  have "[0..3 - 1] \<noteq> ([] :: int list)" by (simp add: upto_rec1)
  with cleanup_attempts_frame [of path 3 delay "[0..3 - 1]" w]
  show ?thesis unfolding cleanup_directory_def by blast
qed

lemma copy_output_directory_frame:
  "cwd (snd (copy_output_directory fault src res w)) = cwd w
   \<and> (\<exists>evs. trace (snd (copy_output_directory fault src res w)) = trace w @ evs
            \<and> (\<forall>p. Chdir p \<notin> set evs))"
proof (cases "os_path_join res ''out'' \<in> dirs w")
  case False
  then show ?thesis
    by (simp add: copy_output_directory_def Let_def split: option.splits)
next
  case True
  obtain r w1 where r: "rmtree (os_path_join res ''out'') w = (r, w1)"
    by (cases "rmtree (os_path_join res ''out'') w")
  with rmtree_frame [of "os_path_join res ''out''" w]
  have "trace w1 = trace w @ [Rmtree (os_path_join res ''out'')]" "cwd w1 = cwd w" by simp_all
  with True r show ?thesis
    by (simp add: copy_output_directory_def Let_def split: option.splits)
qed

lemma cwd_at_removals_no_chdir:
  "\<forall>p. Chdir p \<notin> set evs \<Longrightarrow> set (cwd_at_removals path c evs) \<subseteq> {c}"
proof (induction evs)
  case Nil
  show ?case by simp
next
  case (Cons e evs)
  then show ?case by (cases e) auto
qed

lemma cwd_at_removals_rmtree:
  "\<forall>p. Chdir p \<notin> set evs \<Longrightarrow> Rmtree path \<in> set evs \<Longrightarrow> c \<in> set (cwd_at_removals path c evs)"
proof (induction evs)
  case Nil
  then show ?case by simp
next
  case (Cons e evs)
  then show ?case by (cases e) auto
qed

lemma cwd_at_removals_append_no_chdir:
  "\<forall>p. Chdir p \<notin> set evs \<Longrightarrow>
     cwd_at_removals path c (evs @ rest) = cwd_at_removals path c evs @ cwd_at_removals path c rest"
proof (induction evs)
  case Nil
  show ?case by simp
next
  case (Cons e evs)
  then show ?case by (cases e) auto
qed

lemma cwd_at_removals_after_chdir:
  "cwd_at_removals path c (pre @ [Chdir d] @ evs)
     = cwd_at_removals path c pre @ cwd_at_removals path d evs"
proof (induction pre arbitrary: c)
  case Nil
  show ?case by simp
next
  case (Cons e pre)
  show ?case by (cases e) (simp_all add: Cons.IH [simplified])
qed

text \<open>
  The handler, entered in a world whose trace so far is \<open>pre\<close>: it ends in the
  original directory when that directory is there, every removal it makes is made
  there, and it gives the status 1 unless an exception leaves it.
\<close>

lemma on_exception_frame:
  assumes "trace w1 = trace w @ pre" "set (cwd_at_removals tmp c0 pre) \<subseteq> {orig}"
  shows "(\<exists>new. trace (snd (on_exception orig tmp w1)) = trace w @ new
              \<and> set (cwd_at_removals tmp c0 new) \<subseteq> {orig}
              \<and> (fst (on_exception orig tmp w1) = Inr 0 \<or> fst (on_exception orig tmp w1) = Inr 1
                   \<longrightarrow> set (cwd_at_removals tmp c0 new) = {orig}))
       \<and> (cwd w1 = orig \<or> (\<not> embedded_null orig \<and> orig \<in> dirs w1)
            \<longrightarrow> cwd (snd (on_exception orig tmp w1)) = orig)
       \<and> (\<not> embedded_null orig \<and> orig \<in> dirs w1 \<and> \<not> embedded_null tmp
            \<longrightarrow> fst (on_exception orig tmp w1) = Inr 1)"
proof -
  from chdir_cases [of orig w1] show ?thesis
  proof
    assume "\<exists>e. chdir orig w1 = (Some e, w1) \<and> is_Exception e
          \<and> (embedded_null orig \<or> orig \<notin> dirs w1)"
    then obtain e where e: "chdir orig w1 = (Some e, w1)"
      and bad: "embedded_null orig \<or> orig \<notin> dirs w1" by blast
    then have "on_exception orig tmp w1 = (Inl e, w1)" by (simp add: on_exception_def)
    with assms bad show ?thesis by auto
  next
    let ?w2 = "w1\<lparr>cwd := orig, trace := trace w1 @ [Chdir orig]\<rparr>"
    assume ok: "chdir orig w1 = (None, ?w2) \<and> \<not> embedded_null orig \<and> orig \<in> dirs w1"
    obtain r w3 where r: "cleanup_directory tmp 3 1 ?w2 = (r, w3)"
      by (cases "cleanup_directory tmp 3 1 ?w2")
    from cleanup_directory_frame [of tmp 1 ?w2] r obtain evs where
      evs: "cwd w3 = orig" "trace w3 = trace w @ pre @ [Chdir orig] @ evs"
        "\<forall>p. Chdir p \<notin> set evs" "Rmtree tmp \<in> set evs"
      using assms(1) by auto
    have res: "on_exception orig tmp w1 = (case r of Inl e \<Rightarrow> Inl e | Inr b \<Rightarrow> Inr 1, w3)"
      using ok r by (simp add: on_exception_def split: sum.splits)
    have "set (cwd_at_removals tmp c0 (pre @ [Chdir orig] @ evs)) = {orig}"
      unfolding cwd_at_removals_after_chdir
      using assms(2) cwd_at_removals_no_chdir [OF evs(3), of tmp orig]
        cwd_at_removals_rmtree [OF evs(3) evs(4), of orig]
      by auto
    moreover have "fst (on_exception orig tmp w1) = Inr 1" if "\<not> embedded_null tmp"
    proof -
      from cleanup_directory_never_raises [OF that, of 1 3 ?w2] r obtain b where "r = Inr b"
        by auto
      with res show ?thesis by simp
    qed
    ultimately show ?thesis using evs res by auto
  qed
qed

lemma raised_in_try_frame:
  assumes "trace w1 = trace w @ pre" "set (cwd_at_removals tmp c0 pre) \<subseteq> {orig}"
  shows "(\<exists>new. trace (snd (raised_in_try e orig tmp w1)) = trace w @ new
              \<and> set (cwd_at_removals tmp c0 new) \<subseteq> {orig}
              \<and> (fst (raised_in_try e orig tmp w1) = Inr 0
                    \<or> fst (raised_in_try e orig tmp w1) = Inr 1
                   \<longrightarrow> set (cwd_at_removals tmp c0 new) = {orig}))
       \<and> (cwd w1 = orig \<longrightarrow> cwd (snd (raised_in_try e orig tmp w1)) = orig)"
proof (cases "is_Exception e")
  case True
  with on_exception_frame [OF assms] show ?thesis by (simp add: raised_in_try_def)
next
  case False
  with assms show ?thesis by (auto simp: raised_in_try_def)
qed

lemma run_session_trace:
  "\<exists>new. trace (snd (run_session dumps s w)) = trace w @ new
        \<and> set (cwd_at_removals (temp_dir s) (cwd w) new) \<subseteq> {cwd w}
        \<and> (fst (run_session dumps s w) = Inr 0 \<or> fst (run_session dumps s w) = Inr 1
             \<longrightarrow> set (cwd_at_removals (temp_dir s) (cwd w) new) = {cwd w})"
proof -
  let ?orig = "cwd w" and ?tmp = "temp_dir s"
  let ?G = "generate_with_sdk dumps (path_exists s) (\<not> no_mcp s) (mcp_server_path s) (engine s)"
  let ?goal = "\<lambda>r. \<exists>new. trace (snd r) = trace w @ new
        \<and> set (cwd_at_removals ?tmp ?orig new) \<subseteq> {?orig}
        \<and> (fst r = Inr 0 \<or> fst r = Inr 1 \<longrightarrow> set (cwd_at_removals ?tmp ?orig new) = {?orig})"
  have handler: "?goal (raised_in_try e ?orig ?tmp w')"
    if "trace w' = trace w @ pre" "set (cwd_at_removals ?tmp ?orig pre) \<subseteq> {?orig}"
    for w' pre e
    using raised_in_try_frame [OF that] by blast
  from chdir_cases [of ?tmp w] show ?thesis
  proof
    assume "\<exists>e. chdir ?tmp w = (Some e, w) \<and> is_Exception e
          \<and> (embedded_null ?tmp \<or> ?tmp \<notin> dirs w)"
    then obtain e where "chdir ?tmp w = (Some e, w)" by blast
    then have "run_session dumps s w = (Inl e, w)" by (simp add: run_session_def Let_def)
    then show ?thesis by simp
  next
    let ?w1 = "w\<lparr>cwd := ?tmp, trace := trace w @ [Chdir ?tmp]\<rparr>"
    assume "chdir ?tmp w = (None, ?w1) \<and> \<not> embedded_null ?tmp \<and> ?tmp \<in> dirs w"
    then have c1: "chdir ?tmp w = (None, ?w1)" by simp
    have w1: "trace ?w1 = trace w @ [Chdir ?tmp]" by simp
    have p1: "set (cwd_at_removals ?tmp ?orig [Chdir ?tmp]) \<subseteq> {?orig}" by simp
    show ?thesis
    proof (cases ?G)
      case (Inl e)
      with c1 have "run_session dumps s w = raised_in_try e ?orig ?tmp ?w1"
        by (simp add: run_session_def Let_def)
      with handler [OF w1 p1] show ?thesis by simp
    next
      case (Inr res)
      obtain g tr where res: "res = (g, tr)" by (cases res)
      obtain sm fb rp where ex: "extract_tagged_sections g = (sm, fb, rp)"
        by (cases "extract_tagged_sections g") auto
      from chdir_cases [of ?orig ?w1] show ?thesis
      proof
        assume "\<exists>e. chdir ?orig ?w1 = (Some e, ?w1) \<and> is_Exception e
          \<and> (embedded_null ?orig \<or> ?orig \<notin> dirs ?w1)"
        then obtain e where "chdir ?orig ?w1 = (Some e, ?w1)" by blast
        with c1 Inr res have "run_session dumps s w = raised_in_try e ?orig ?tmp ?w1"
          by (simp add: run_session_def Let_def)
        with handler [OF w1 p1] show ?thesis by simp
      next
        let ?w2 = "?w1\<lparr>cwd := ?orig, trace := trace ?w1 @ [Chdir ?orig]\<rparr>"
        assume "chdir ?orig ?w1 = (None, ?w2) \<and> \<not> embedded_null ?orig \<and> ?orig \<in> dirs ?w1"
        then have c2: "chdir ?orig ?w1 = (None, ?w2)" by simp
        have w2: "trace ?w2 = trace w @ [Chdir ?tmp, Chdir ?orig]" by simp
        have p2: "set (cwd_at_removals ?tmp ?orig [Chdir ?tmp, Chdir ?orig]) \<subseteq> {?orig}" by simp
        show ?thesis
        proof (cases "write_error s")
          case (Some e)
          with c1 c2 Inr res ex
          have "run_session dumps s w = raised_in_try e ?orig ?tmp ?w2"
            by (simp add: run_session_def Let_def)
          with handler [OF w2 p2] show ?thesis by simp
        next
          case None
          let ?w3 = "?w2\<lparr>files := write_results (results_dir s) g sm fb rp (Some tr) (files ?w2)\<rparr>"
          have w3: "trace ?w3 = trace w @ [Chdir ?tmp, Chdir ?orig]" by simp
          obtain r4 w4 where
            c4: "copy_output_directory (copy_error s) ?tmp (results_dir s) ?w3 = (r4, w4)"
            by (cases "copy_output_directory (copy_error s) ?tmp (results_dir s) ?w3")
          from copy_output_directory_frame [of "copy_error s" ?tmp "results_dir s" ?w3] c4 w3
          obtain cevs where cevs:
            "trace w4 = trace w @ ([Chdir ?tmp, Chdir ?orig] @ cevs)" "\<forall>p. Chdir p \<notin> set cevs"
            by auto
          have inner: "set (cwd_at_removals ?tmp ?orig cevs) \<subseteq> {?orig}"
            by (rule cwd_at_removals_no_chdir [OF cevs(2)])
          then have p4: "set (cwd_at_removals ?tmp ?orig ([Chdir ?tmp, Chdir ?orig] @ cevs))
              \<subseteq> {?orig}" by simp
          show ?thesis
          proof (cases r4)
            case (Some e)
            with c1 c2 Inr res ex None c4
            have "run_session dumps s w = raised_in_try e ?orig ?tmp w4"
              by (simp add: run_session_def Let_def)
            with handler [OF cevs(1) p4] show ?thesis by simp
          next
            case no: None
            obtain r5 w5 where c5: "cleanup_directory ?tmp 3 1 w4 = (r5, w5)"
              by (cases "cleanup_directory ?tmp 3 1 w4")
            from cleanup_directory_frame [of ?tmp 1 w4] c5 cevs
            obtain evs where evs:
              "trace w5 = trace w @ ([Chdir ?tmp, Chdir ?orig] @ cevs @ evs)"
              "\<forall>p. Chdir p \<notin> set evs" "Rmtree ?tmp \<in> set evs"
              by auto
            have p5: "set (cwd_at_removals ?tmp ?orig ([Chdir ?tmp, Chdir ?orig] @ cevs @ evs))
                = {?orig}"
              using inner cwd_at_removals_no_chdir [OF evs(2), of ?tmp ?orig]
                cwd_at_removals_rmtree [OF evs(2) evs(3), of ?orig]
              by (auto simp: cwd_at_removals_append_no_chdir [OF cevs(2)])
            show ?thesis
            proof (cases r5)
              case (Inl e)
              with c1 c2 Inr res ex None c4 no c5
              have "run_session dumps s w = raised_in_try e ?orig ?tmp w5"
                by (simp add: run_session_def Let_def)
              moreover from p5 have "set (cwd_at_removals ?tmp ?orig
                  ([Chdir ?tmp, Chdir ?orig] @ cevs @ evs)) \<subseteq> {?orig}" by simp
              from handler [OF evs(1) this] have "?goal (raised_in_try e ?orig ?tmp w5)" .
              ultimately show ?thesis by simp
            next
              case (Inr b)
              with c1 c2 \<open>?G = Inr res\<close> res ex None c4 no c5
              have "run_session dumps s w = (Inr 0, w5)"
                by (simp add: run_session_def Let_def)
              with evs(1) p5 show ?thesis by auto
            qed
          qed
        qed
      qed
    qed
  qed
qed

lemma run_session_cwd:
  assumes "cwd w \<in> dirs w" "\<not> embedded_null (cwd w)"
    and "\<forall>e. generate_with_sdk dumps (path_exists s) (\<not> no_mcp s) (mcp_server_path s) (engine s)
               = Inl e \<longrightarrow> is_Exception e"
  shows "cwd (snd (run_session dumps s w)) = cwd w"
proof -
  let ?orig = "cwd w" and ?tmp = "temp_dir s"
  let ?G = "generate_with_sdk dumps (path_exists s) (\<not> no_mcp s) (mcp_server_path s) (engine s)"
  have handler: "cwd (snd (raised_in_try e ?orig ?tmp w')) = ?orig"
    if "cwd w' = ?orig" for w' e
    using raised_in_try_frame [of w' w' "[]" ?tmp ?orig ?orig e] that by simp
  from chdir_cases [of ?tmp w] show ?thesis
  proof
    assume "\<exists>e. chdir ?tmp w = (Some e, w) \<and> is_Exception e
          \<and> (embedded_null ?tmp \<or> ?tmp \<notin> dirs w)"
    then obtain e where "chdir ?tmp w = (Some e, w)" by blast
    then have "run_session dumps s w = (Inl e, w)" by (simp add: run_session_def Let_def)
    then show ?thesis by simp
  next
    let ?w1 = "w\<lparr>cwd := ?tmp, trace := trace w @ [Chdir ?tmp]\<rparr>"
    assume "chdir ?tmp w = (None, ?w1) \<and> \<not> embedded_null ?tmp \<and> ?tmp \<in> dirs w"
    then have c1: "chdir ?tmp w = (None, ?w1)" by simp
    let ?w2 = "?w1\<lparr>cwd := ?orig, trace := trace ?w1 @ [Chdir ?orig]\<rparr>"
    have c2: "chdir ?orig ?w1 = (None, ?w2)"
      using assms(1,2) by (intro chdir_ok) simp_all
    show ?thesis
    proof (cases ?G)
      case (Inl e)
      with assms(3) have "is_Exception e" by simp
      with c1 Inl have run: "run_session dumps s w = on_exception ?orig ?tmp ?w1"
        by (simp add: run_session_def Let_def raised_in_try_def)
      from on_exception_frame [of ?w1 ?w1 "[]" ?tmp ?orig ?orig] assms(1,2)
      show ?thesis unfolding run by simp
    next
      case (Inr res)
      obtain g tr where res: "res = (g, tr)" by (cases res)
      obtain sm fb rp where ex: "extract_tagged_sections g = (sm, fb, rp)"
        by (cases "extract_tagged_sections g") auto
      show ?thesis
      proof (cases "write_error s")
        case (Some e)
        with c1 c2 Inr res ex
        have "run_session dumps s w = raised_in_try e ?orig ?tmp ?w2"
          by (simp add: run_session_def Let_def)
        with handler [of ?w2 e] show ?thesis by simp
      next
        case None
        let ?w3 = "?w2\<lparr>files := write_results (results_dir s) g sm fb rp (Some tr) (files ?w2)\<rparr>"
        obtain r4 w4 where
          c4: "copy_output_directory (copy_error s) ?tmp (results_dir s) ?w3 = (r4, w4)"
          by (cases "copy_output_directory (copy_error s) ?tmp (results_dir s) ?w3")
        from copy_output_directory_frame [of "copy_error s" ?tmp "results_dir s" ?w3] c4
        have w4: "cwd w4 = ?orig" by simp
        show ?thesis
        proof (cases r4)
          case (Some e)
          with c1 c2 Inr res ex None c4
          have "run_session dumps s w = raised_in_try e ?orig ?tmp w4"
            by (simp add: run_session_def Let_def)
          with handler [OF w4, of e] show ?thesis by simp
        next
          case no: None
          obtain r5 w5 where c5: "cleanup_directory ?tmp 3 1 w4 = (r5, w5)"
            by (cases "cleanup_directory ?tmp 3 1 w4")
          from cleanup_directory_frame [of ?tmp 1 w4] c5 w4 have w5: "cwd w5 = ?orig" by simp
          show ?thesis
          proof (cases r5)
            case (Inl e)
            with c1 c2 \<open>?G = Inr res\<close> res ex None c4 no c5
            have "run_session dumps s w = raised_in_try e ?orig ?tmp w5"
              by (simp add: run_session_def Let_def)
            with handler [OF w5, of e] show ?thesis by simp
          next
            case (Inr b)
            with c1 c2 \<open>?G = Inr res\<close> res ex None c4 no c5
            have "run_session dumps s w = (Inr 0, w5)"
              by (simp add: run_session_def Let_def)
            with w5 show ?thesis by simp
          qed
        qed
      qed
    qed
  qed
qed

lemma run_session_engine_exception:
  assumes "cwd w \<in> dirs w" "\<not> embedded_null (cwd w)"
    and "temp_dir s \<in> dirs w" "\<not> embedded_null (temp_dir s)"
    and "generate_with_sdk dumps (path_exists s) (\<not> no_mcp s) (mcp_server_path s) (engine s)
           = Inl e"
    and "is_Exception e"
  shows "fst (run_session dumps s w) = Inr 1"
proof -
  let ?w1 = "w\<lparr>cwd := temp_dir s, trace := trace w @ [Chdir (temp_dir s)]\<rparr>"
  have c1: "chdir (temp_dir s) w = (None, ?w1)" using assms(3,4) by (intro chdir_ok)
  with assms(5,6) have run: "run_session dumps s w = on_exception (cwd w) (temp_dir s) ?w1"
    by (simp add: run_session_def Let_def raised_in_try_def)
  from on_exception_frame [of ?w1 ?w1 "[]" "temp_dir s" "cwd w" "cwd w"] assms(1,2,4)
  show ?thesis unfolding run by simp
qed

lemma run_session_base_exception:
  assumes "temp_dir s \<in> dirs w" "\<not> embedded_null (temp_dir s)"
    and "generate_with_sdk dumps (path_exists s) (\<not> no_mcp s) (mcp_server_path s) (engine s)
           = Inl e"
    and "\<not> is_Exception e"
  shows "run_session dumps s w
           = (Inl e, w\<lparr>cwd := temp_dir s, trace := trace w @ [Chdir (temp_dir s)]\<rparr>)"
proof -
  have "chdir (temp_dir s) w
      = (None, w\<lparr>cwd := temp_dir s, trace := trace w @ [Chdir (temp_dir s)]\<rparr>)"
    using assms(1,2) by (intro chdir_ok)
  with assms(3,4) show ?thesis
    by (simp add: run_session_def Let_def raised_in_try_def)
qed

text \<open>
  Claim C9, amended: the working directory is restored when the exception is an
  \<open>Exception\<close> and the original directory can be entered. First, when the original
  directory exists and the engine raises nothing but an \<open>Exception\<close>, the session ends
  in the directory it started in, whatever the writing of the results, the copy and the
  removals do. Second, on every path the working directory is the original one at each
  removal of the temporary directory, and a session that ends with status 0 or 1 has
  made at least one such removal: the directory is restored before the cleanup. Third,
  when both directories exist and the engine raises an \<open>Exception\<close>, the status is 1.
  Fourth, an exception of the engine that is not an \<open>Exception\<close> (\<open>KeyboardInterrupt\<close>,
  \<open>asyncio.CancelledError\<close>) passes the clause \<open>except Exception\<close> of line 397: it
  leaves the session with the working directory still the temporary one, and the
  session has removed nothing.
\<close>

theorem run_session_restores_cwd:
  "(cwd w \<in> dirs w \<and> \<not> embedded_null (cwd w)
      \<and> (\<forall>e. generate_with_sdk dumps (path_exists s) (\<not> no_mcp s) (mcp_server_path s)
                 (engine s) = Inl e \<longrightarrow> is_Exception e)
      \<longrightarrow> cwd (snd (run_session dumps s w)) = cwd w)
   \<and> (\<exists>new. trace (snd (run_session dumps s w)) = trace w @ new
          \<and> set (cwd_at_removals (temp_dir s) (cwd w) new) \<subseteq> {cwd w}
          \<and> (fst (run_session dumps s w) = Inr 0 \<or> fst (run_session dumps s w) = Inr 1
               \<longrightarrow> set (cwd_at_removals (temp_dir s) (cwd w) new) = {cwd w}))
   \<and> (cwd w \<in> dirs w \<and> \<not> embedded_null (cwd w)
        \<and> temp_dir s \<in> dirs w \<and> \<not> embedded_null (temp_dir s)
        \<and> (\<exists>e. generate_with_sdk dumps (path_exists s) (\<not> no_mcp s) (mcp_server_path s)
                  (engine s) = Inl e \<and> is_Exception e)
        \<longrightarrow> fst (run_session dumps s w) = Inr 1)
   \<and> (\<forall>e. temp_dir s \<in> dirs w \<and> \<not> embedded_null (temp_dir s)
        \<and> generate_with_sdk dumps (path_exists s) (\<not> no_mcp s) (mcp_server_path s)
             (engine s) = Inl e
        \<and> \<not> is_Exception e
        \<longrightarrow> run_session dumps s w
              = (Inl e, w\<lparr>cwd := temp_dir s, trace := trace w @ [Chdir (temp_dir s)]\<rparr>))"
  using run_session_cwd [of w dumps s] run_session_trace [of dumps s w]
    run_session_engine_exception [of w s dumps] run_session_base_exception [of s w dumps]
  by blast

text \<open>
  A session whose engine raises \<open>RuntimeError\<close>, and one whose engine is cancelled.
\<close>

theorem run_session_restores_cwd_witness:
  "cwd (snd (run_session (\<lambda>kvs. Inr ''{}'')
      \<lparr>no_mcp = True, mcp_server_path = None, path_exists = (\<lambda>p. False),
       engine = \<lparr>stream_messages = [], stream_error = Some (PyExc RuntimeError ''engine'')\<rparr>,
       results_dir = ''/home/results'', temp_dir = ''/tmp/ws'',
       write_error = None, copy_error = None\<rparr>
      \<lparr>cwd = ''/home'', dirs = {''/home'', ''/tmp/ws''}, files = Map.empty, rm_faults = [],
       trace = []\<rparr>))
     = ''/home''
   \<and> fst (run_session (\<lambda>kvs. Inr ''{}'')
      \<lparr>no_mcp = True, mcp_server_path = None, path_exists = (\<lambda>p. False),
       engine = \<lparr>stream_messages = [], stream_error = Some (PyExc RuntimeError ''engine'')\<rparr>,
       results_dir = ''/home/results'', temp_dir = ''/tmp/ws'',
       write_error = None, copy_error = None\<rparr>
      \<lparr>cwd = ''/home'', dirs = {''/home'', ''/tmp/ws''}, files = Map.empty, rm_faults = [],
       trace = []\<rparr>)
     = Inr 1
   \<and> (\<exists>new. trace (snd (run_session (\<lambda>kvs. Inr ''{}'')
      \<lparr>no_mcp = True, mcp_server_path = None, path_exists = (\<lambda>p. False),
       engine = \<lparr>stream_messages = [], stream_error = Some (PyExc RuntimeError ''engine'')\<rparr>,
       results_dir = ''/home/results'', temp_dir = ''/tmp/ws'',
       write_error = None, copy_error = None\<rparr>
      \<lparr>cwd = ''/home'', dirs = {''/home'', ''/tmp/ws''}, files = Map.empty, rm_faults = [],
       trace = []\<rparr>)) = new
        \<and> set (cwd_at_removals ''/tmp/ws'' ''/home'' new) = {''/home''})
   \<and> run_session (\<lambda>kvs. Inr ''{}'')
      \<lparr>no_mcp = True, mcp_server_path = None, path_exists = (\<lambda>p. False),
       engine = \<lparr>stream_messages = [], stream_error = Some (PyExc CancelledError [])\<rparr>,
       results_dir = ''/home/results'', temp_dir = ''/tmp/ws'',
       write_error = None, copy_error = None\<rparr>
      \<lparr>cwd = ''/home'', dirs = {''/home'', ''/tmp/ws''}, files = Map.empty, rm_faults = [],
       trace = []\<rparr>
     = (Inl (PyExc CancelledError []),
        \<lparr>cwd = ''/tmp/ws'', dirs = {''/home'', ''/tmp/ws''}, files = Map.empty, rm_faults = [],
         trace = [Chdir ''/tmp/ws'']\<rparr>)"
proof -
  let ?D = "\<lambda>kvs :: (string \<times> pyval) list. (Inr ''{}'' :: pyexc + string)"
  let ?S = "\<lambda>e. \<lparr>no_mcp = True, mcp_server_path = None, path_exists = (\<lambda>p. False),
       engine = \<lparr>stream_messages = [], stream_error = Some e\<rparr>,
       results_dir = ''/home/results'', temp_dir = ''/tmp/ws'',
       write_error = None, copy_error = None\<rparr>"
  let ?W = "\<lparr>cwd = ''/home'', dirs = {''/home'', ''/tmp/ws''}, files = Map.empty,
       rm_faults = [], trace = []\<rparr>"
  have g: "generate_with_sdk ?D (\<lambda>p. False) False None
      \<lparr>stream_messages = [], stream_error = Some e\<rparr> = Inl e" for e
    by (simp add: generate_with_sdk_def consume_stream_def)
  note t1 = run_session_restores_cwd [of ?W ?D "?S (PyExc RuntimeError ''engine'')"]
  note t2 = run_session_restores_cwd [of ?W ?D "?S (PyExc CancelledError [])"]
  from t1 have a: "cwd (snd (run_session ?D (?S (PyExc RuntimeError ''engine'')) ?W)) = ''/home''"
    and c: "fst (run_session ?D (?S (PyExc RuntimeError ''engine'')) ?W) = Inr 1"
    by (simp_all add: g embedded_null_def)
  from t1 c have b: "\<exists>new. trace (snd (run_session ?D (?S (PyExc RuntimeError ''engine'')) ?W)) = new
        \<and> set (cwd_at_removals ''/tmp/ws'' ''/home'' new) = {''/home''}"
    by simp
  from t2 have d: "run_session ?D (?S (PyExc CancelledError [])) ?W
     = (Inl (PyExc CancelledError []),
        \<lparr>cwd = ''/tmp/ws'', dirs = {''/home'', ''/tmp/ws''}, files = Map.empty, rm_faults = [],
         trace = [Chdir ''/tmp/ws'']\<rparr>)"
    by (simp add: g embedded_null_def)
  from a b c d show ?thesis by blast
qed

text \<open>
  Claim C9 as stated restores the working directory on every exit path. A session
  whose engine is cancelled ends in the temporary directory; so does a session whose
  engine fails when the original directory is gone, since the \<open>os.chdir\<close> of the
  handler then raises.
\<close>

theorem run_session_base_exception_counterexample:
  "run_session (\<lambda>kvs. Inr ''{}'')
      \<lparr>no_mcp = True, mcp_server_path = None, path_exists = (\<lambda>p. False),
       engine = \<lparr>stream_messages = [], stream_error = Some (PyExc CancelledError [])\<rparr>,
       results_dir = ''/home/results'', temp_dir = ''/tmp/ws'',
       write_error = None, copy_error = None\<rparr>
      \<lparr>cwd = ''/home'', dirs = {''/home'', ''/tmp/ws''}, files = Map.empty, rm_faults = [],
       trace = []\<rparr>
     = (Inl (PyExc CancelledError []),
        \<lparr>cwd = ''/tmp/ws'', dirs = {''/home'', ''/tmp/ws''}, files = Map.empty, rm_faults = [],
         trace = [Chdir ''/tmp/ws'']\<rparr>)
   \<and> run_session (\<lambda>kvs. Inr ''{}'')
      \<lparr>no_mcp = True, mcp_server_path = None, path_exists = (\<lambda>p. False),
       engine = \<lparr>stream_messages = [], stream_error = Some (PyExc RuntimeError ''engine'')\<rparr>,
       results_dir = ''/home/results'', temp_dir = ''/tmp/ws'',
       write_error = None, copy_error = None\<rparr>
      \<lparr>cwd = ''/home'', dirs = {''/tmp/ws''}, files = Map.empty, rm_faults = [],
       trace = []\<rparr>
     = (Inl (PyExc FileNotFoundError ''/home''),
        \<lparr>cwd = ''/tmp/ws'', dirs = {''/tmp/ws''}, files = Map.empty, rm_faults = [],
         trace = [Chdir ''/tmp/ws'']\<rparr>)"
  by (simp add: run_session_def generate_with_sdk_def consume_stream_def raised_in_try_def
      on_exception_def chdir_def emit_def embedded_null_def Let_def)

lemma run_session_engine_error_trace:
  "run_session (\<lambda>kvs. Inr ''{}'')
      \<lparr>no_mcp = True, mcp_server_path = None, path_exists = (\<lambda>p. False),
       engine = \<lparr>stream_messages = [], stream_error = Some (PyExc RuntimeError ''engine'')\<rparr>,
       results_dir = ''/home/results'', temp_dir = ''/tmp/ws'',
       write_error = None, copy_error = None\<rparr>
      \<lparr>cwd = ''/home'', dirs = {''/home'', ''/tmp/ws''}, files = Map.empty, rm_faults = [],
       trace = []\<rparr>
   = (Inr 1,
      \<lparr>cwd = ''/home'', dirs = {''/home''}, files = Map.empty, rm_faults = [],
       trace = [Chdir ''/tmp/ws'', Chdir ''/home'', Rmtree ''/tmp/ws'']\<rparr>)"
  by (simp add: run_session_def generate_with_sdk_def consume_stream_def raised_in_try_def
      on_exception_def cleanup_directory_def chdir_def emit_def rmtree_def remove_tree_def
      embedded_null_def upto_rec1 Let_def insert_Diff_if)

section \<open>The final text of \<open>generate_with_sdk\<close>\<close>

lemma dropWhile_rev_prefix: "prefix (rev (dropWhile P (rev u))) u"
proof -
  have "rev u = takeWhile P (rev u) @ dropWhile P (rev u)" by simp
  then have "u = rev (dropWhile P (rev u)) @ rev (takeWhile P (rev u))"
    by (metis rev_append rev_rev_ident)
  then show ?thesis by (metis prefixI)
qed

lemma strip_hd_last:
  assumes "strip s \<noteq> []"
  shows "\<not> isspace (hd (strip s))" "\<not> isspace (last (strip s))"
proof -
  let ?u = "dropWhile isspace s"
  have u: "?u \<noteq> []"
  proof
    assume e: "?u = []"
    have "strip s = []" unfolding strip_def e by simp
    with assms show False by simp
  qed
  have "prefix (strip s) ?u" unfolding strip_def by (rule dropWhile_rev_prefix)
  with assms have "hd (strip s) = hd ?u" by (auto simp: prefix_def)
  moreover have "\<not> isspace (hd ?u)" using u by (rule hd_dropWhile)
  ultimately show "\<not> isspace (hd (strip s))" by simp
  from assms have d: "dropWhile isspace (rev ?u) \<noteq> []" by (simp add: strip_def)
  have "last (strip s) = hd (dropWhile isspace (rev ?u))"
    unfolding strip_def using d by (simp add: last_rev)
  moreover have "\<not> isspace (hd (dropWhile isspace (rev ?u)))" using d by (rule hd_dropWhile)
  ultimately show "\<not> isspace (last (strip s))" by simp
qed

lemma strip_id:
  assumes "s \<noteq> []" "\<not> isspace (hd s)" "\<not> isspace (last s)"
  shows "strip s = s"
proof -
  from assms(1,2) have 1: "dropWhile isspace s = s" by (cases s) simp_all
  from assms(1,3) have 2: "dropWhile isspace (rev s) = rev s"
    by (cases "rev s") (simp_all add: last_rev [symmetric] hd_rev)
  show ?thesis by (simp add: strip_def 1 2)
qed

lemma strip_snoc_newline:
  assumes "s \<noteq> []" "\<not> isspace (hd s)" "\<not> isspace (last s)"
  shows "strip (s @ [CHR 0x0A]) = s"
proof -
  from assms(1,2) have 1: "dropWhile isspace (s @ [CHR 0x0A]) = s @ [CHR 0x0A]"
    by (cases s) simp_all
  from assms(1,3) have 2: "dropWhile isspace (rev s) = rev s"
    by (cases "rev s") (simp_all add: last_rev [symmetric] hd_rev)
  have 3: "isspace (CHR 0x0A)" by (simp add: isspace_def)
  show ?thesis by (simp add: strip_def 1 2 3)
qed

lemma join_newline_props:
  assumes "fs \<noteq> []" "\<forall>f \<in> set fs. f \<noteq> [] \<and> \<not> isspace (hd f) \<and> \<not> isspace (last f)"
  shows "join [CHR 0x0A] fs \<noteq> [] \<and> \<not> isspace (hd (join [CHR 0x0A] fs))
       \<and> \<not> isspace (last (join [CHR 0x0A] fs))
       \<and> concat (map (\<lambda>f. f @ [CHR 0x0A]) fs) = join [CHR 0x0A] fs @ [CHR 0x0A]"
  using assms
proof (induction fs rule: join.induct [where ?a0.0 = "[CHR 0x0A]"])
  case (1 sep)
  then show ?case by simp
next
  case (2 sep x)
  then show ?case by simp
next
  case (3 sep x y ys)
  then show ?case by (auto simp: hd_append)
qed

lemma block_fragments_stripped:
  "\<forall>f \<in> set (block_fragments bs). f \<noteq> [] \<and> \<not> isspace (hd f) \<and> \<not> isspace (last f)"
  by (induction bs) (auto simp: strip_hd_last split: sum.splits pyval.splits)

lemma message_fragments_stripped:
  "\<forall>f \<in> set (message_fragments m). f \<noteq> [] \<and> \<not> isspace (hd f) \<and> \<not> isspace (last f)"
  using block_fragments_stripped
  by (auto simp: message_fragments_def split: option.splits pyval.splits)

lemma collect_text_fragments:
  "collect_text blocks g = Inr g' \<Longrightarrow>
     g' = g @ concat (map (\<lambda>f. f @ [CHR 0x0A]) (block_fragments blocks))"
proof (induction blocks arbitrary: g)
  case Nil
  then show ?case by simp
next
  case (Cons b bs)
  from Cons.prems show ?case
    by (auto simp: hasattr_of_def has_attr_def Let_def dest!: Cons.IH
        split: sum.splits if_splits pyval.splits)
qed

lemma truthy_attr_field: "truthy_attr m name = Inr r \<Longrightarrow> r = truthy_field m name"
  by (auto simp: truthy_attr_def truthy_field_def hasattr_of_def split: sum.splits if_splits)

lemma handle_message_text:
  assumes "handle_message dumps st m = Inr st'"
  shows "final_result_content st'
           = (case result_text m of Some t \<Rightarrow> t | None \<Rightarrow> final_result_content st)"
    and "generated_content st'
           = generated_content st @ concat (map (\<lambda>f. f @ [CHR 0x0A]) (message_fragments m))"
  using assms
  by (auto simp: handle_message_def Let_def result_text_def message_fragments_def
      dest!: truthy_attr_field collect_text_fragments
      split: sum.splits option.splits if_splits pyval.splits prod.splits)

lemma result_text_nonempty: "result_text m = Some t \<Longrightarrow> t \<noteq> []"
  by (auto simp: result_text_def split: option.splits if_splits)

lemma receive_response_text:
  "receive_response dumps st msgs = Inr st' \<Longrightarrow>
     final_result_content st'
       = (if List.map_filter result_text msgs = [] then final_result_content st
          else last (List.map_filter result_text msgs))
     \<and> generated_content st'
       = generated_content st
         @ concat (map (\<lambda>f. f @ [CHR 0x0A]) (concat (map message_fragments msgs)))"
proof (induction msgs arbitrary: st)
  case Nil
  then show ?case by (simp add: List.map_filter_simps)
next
  case (Cons m ms)
  from Cons.prems obtain st1 where
    st1: "handle_message dumps st m = Inr st1" and rest: "receive_response dumps st1 ms = Inr st'"
    by (auto split: sum.splits)
  note step = handle_message_text [OF st1]
  note ih = Cons.IH [OF rest]
  show ?case
  proof (cases "result_text m")
    case None
    with step ih show ?thesis by (simp add: List.map_filter_simps)
  next
    case (Some t)
    with step ih show ?thesis by (simp add: List.map_filter_simps)
  qed
qed

lemma map_filter_result_text_nonempty:
  "List.map_filter result_text msgs \<noteq> [] \<Longrightarrow> last (List.map_filter result_text msgs) \<noteq> []"
proof -
  assume ne: "List.map_filter result_text msgs \<noteq> []"
  then have "last (List.map_filter result_text msgs) \<in> set (List.map_filter result_text msgs)"
    by simp
  then obtain m where "result_text m = Some (last (List.map_filter result_text msgs))"
    by (auto simp: List.map_filter_def)
  then show ?thesis by (rule result_text_nonempty)
qed

lemma fragments_stripped:
  "\<forall>f \<in> set (concat (map message_fragments msgs)).
      f \<noteq> [] \<and> \<not> isspace (hd f) \<and> \<not> isspace (last f)"
  using message_fragments_stripped by auto

lemma final_text_spec:
  assumes "receive_response dumps initial_state msgs = Inr st"
  shows "final_text st = spec_final_text msgs"
proof -
  let ?rs = "List.map_filter result_text msgs"
  let ?fs = "concat (map message_fragments msgs)"
  from receive_response_text [OF assms]
  have f: "final_result_content st = (if ?rs = [] then [] else last ?rs)"
    and g: "generated_content st = concat (map (\<lambda>f. f @ [CHR 0x0A]) ?fs)"
    by (simp_all add: initial_state_def)
  show ?thesis
  proof (cases "?rs = []")
    case False
    with f map_filter_result_text_nonempty [OF False] show ?thesis
      by (simp add: final_text_def spec_final_text_def Let_def)
  next
    case True
    show ?thesis
    proof (cases "?fs = []")
      case e: True
      with True f g show ?thesis
        by (simp add: final_text_def spec_final_text_def Let_def del: concat_eq_Nil_conv)
    next
      case ne: False
      note j = join_newline_props [OF ne fragments_stripped]
      from j have gen: "generated_content st = join [CHR 0x0A] ?fs @ [CHR 0x0A]"
        using g by simp
      have "strip (generated_content st) = join [CHR 0x0A] ?fs"
        unfolding gen using j by (intro strip_snoc_newline) simp_all
      moreover have "strip (join [CHR 0x0A] ?fs) = join [CHR 0x0A] ?fs"
        using j by (intro strip_id) simp_all
      ultimately show ?thesis
        using True ne f gen
        by (simp add: final_text_def spec_final_text_def Let_def del: concat_eq_Nil_conv)
    qed
  qed
qed

text \<open>
  Stripping the joined fragments changes nothing: every fragment is stripped already.
\<close>

lemma spec_final_text_join:
  assumes "List.map_filter result_text msgs = []" "concat (map message_fragments msgs) \<noteq> []"
  shows "spec_final_text msgs = join [CHR 0x0A] (concat (map message_fragments msgs))"
proof -
  have "strip (join [CHR 0x0A] (concat (map message_fragments msgs)))
      = join [CHR 0x0A] (concat (map message_fragments msgs))"
    using join_newline_props [OF assms(2) fragments_stripped] by (intro strip_id) simp_all
  with assms show ?thesis
    by (simp add: spec_final_text_def Let_def del: concat_eq_Nil_conv)
qed

text \<open>
  Claim C1, amended: the result field counts only when it is truthy. When
  \<open>generate_with_sdk\<close> returns, its text is the stripped string form of the last
  truthy \<open>result\<close> whose stripped string form is not empty, if a message has one;
  otherwise the stripped fragments of the text blocks, in the order of arrival, joined
  by newlines and stripped, if there is one; otherwise the sentinel
  (\<open>spec_final_text\<close>).
\<close>

theorem generate_with_sdk_final_text:
  assumes "generate_with_sdk dumps exists_path use_mcp server_path run = Inr (text, tr)"
  shows "text = spec_final_text (stream_messages run)"
proof -
  from assms obtain st where
    st: "receive_response dumps initial_state (stream_messages run) = Inr st"
    and t: "text = final_text st"
    by (auto simp: generate_with_sdk_def consume_stream_def
        split: if_splits sum.splits option.splits prod.splits)
  from final_text_spec [OF st] t show ?thesis by simp
qed

text \<open>
  A message with two text blocks and a tool block, followed by a result; the same
  message alone; no message at all.
\<close>

theorem generate_with_sdk_final_text_witness:
  "(\<exists>tr. generate_with_sdk (\<lambda>kvs. Inr ''{}'') (\<lambda>p. False) False None
       \<lparr>stream_messages =
          [\<lparr>type_name = ''AssistantMessage'',
            attrs = [(''content'', Inr (PyList
                       [PyObj ''TextBlock'' [(''text'', Inr (PyStr '' hello ''))] ''TextBlock'',
                        PyObj ''ToolUseBlock''
                          [(''id'', Inr (PyStr ''t1'')), (''text'', Inr (PyStr ''call''))]
                          ''ToolUseBlock'',
                        PyObj ''TextBlock'' [(''text'', Inr (PyStr ''world''))] ''TextBlock'']))]\<rparr>,
           \<lparr>type_name = ''ResultMessage'', attrs = [(''result'', Inr (PyStr '' done ''))]\<rparr>],
        stream_error = None\<rparr> = Inr (''done'', tr))
   \<and> (\<exists>tr. generate_with_sdk (\<lambda>kvs. Inr ''{}'') (\<lambda>p. False) False None
       \<lparr>stream_messages =
          [\<lparr>type_name = ''AssistantMessage'',
            attrs = [(''content'', Inr (PyList
                       [PyObj ''TextBlock'' [(''text'', Inr (PyStr '' hello ''))] ''TextBlock'',
                        PyObj ''ToolUseBlock''
                          [(''id'', Inr (PyStr ''t1'')), (''text'', Inr (PyStr ''call''))]
                          ''ToolUseBlock'',
                        PyObj ''TextBlock'' [(''text'', Inr (PyStr ''world''))] ''TextBlock'']))]\<rparr>],
        stream_error = None\<rparr> = Inr (''hello'' @ [CHR 0x0A] @ ''world'', tr))
   \<and> spec_final_text
        [\<lparr>type_name = ''AssistantMessage'',
          attrs = [(''content'', Inr (PyList
                     [PyObj ''TextBlock'' [(''text'', Inr (PyStr '' hello ''))] ''TextBlock'',
                      PyObj ''ToolUseBlock''
                        [(''id'', Inr (PyStr ''t1'')), (''text'', Inr (PyStr ''call''))]
                        ''ToolUseBlock'',
                      PyObj ''TextBlock'' [(''text'', Inr (PyStr ''world''))] ''TextBlock'']))]\<rparr>,
         \<lparr>type_name = ''ResultMessage'', attrs = [(''result'', Inr (PyStr '' done ''))]\<rparr>]
      = ''done''
   \<and> spec_final_text
        [\<lparr>type_name = ''AssistantMessage'',
          attrs = [(''content'', Inr (PyList
                     [PyObj ''TextBlock'' [(''text'', Inr (PyStr '' hello ''))] ''TextBlock'',
                      PyObj ''ToolUseBlock''
                        [(''id'', Inr (PyStr ''t1'')), (''text'', Inr (PyStr ''call''))]
                        ''ToolUseBlock'',
                      PyObj ''TextBlock'' [(''text'', Inr (PyStr ''world''))] ''TextBlock'']))]\<rparr>]
      = ''hello'' @ [CHR 0x0A] @ ''world''
   \<and> (\<exists>tr. generate_with_sdk (\<lambda>kvs. Inr ''{}'') (\<lambda>p. False) False None
         \<lparr>stream_messages = [], stream_error = None\<rparr> = Inr (''-- No content generated --'', tr))"
proof -
  let ?A = "\<lparr>type_name = ''AssistantMessage'',
            attrs = [(''content'', Inr (PyList
                       [PyObj ''TextBlock'' [(''text'', Inr (PyStr '' hello ''))] ''TextBlock'',
                        PyObj ''ToolUseBlock''
                          [(''id'', Inr (PyStr ''t1'')), (''text'', Inr (PyStr ''call''))]
                          ''ToolUseBlock'',
                        PyObj ''TextBlock'' [(''text'', Inr (PyStr ''world''))] ''TextBlock'']))]\<rparr>"
  let ?R = "\<lparr>type_name = ''ResultMessage'', attrs = [(''result'', Inr (PyStr '' done ''))]\<rparr>"
  let ?gen = "\<lambda>ms. generate_with_sdk (\<lambda>kvs. Inr ''{}'') (\<lambda>p. False) False None
       \<lparr>stream_messages = ms, stream_error = None\<rparr>"
  note defs = generate_with_sdk_def consume_stream_def handle_message_def
    add_message_to_transcript_def truthy_attr_def hasattr_of_def getattr_def
    getattr_default_of_def py_dir_def field_text_def initial_state_def new_tracker_def
    final_text_def strip_def isspace_def py_str_def Let_def no_content_def no_attribute_def
  have 1: "\<exists>tr. ?gen [?A, ?R] = Inr (''done'', tr)" by (simp add: defs)
  have 2: "\<exists>tr. ?gen [?A] = Inr (''hello'' @ [CHR 0x0A] @ ''world'', tr)" by (simp add: defs)
  have 3: "\<exists>tr. ?gen [] = Inr (''-- No content generated --'', tr)" by (simp add: defs)
  from 1 obtain tr1 where g1: "?gen [?A, ?R] = Inr (''done'', tr1)" by blast
  from 2 obtain tr2 where g2: "?gen [?A] = Inr (''hello'' @ [CHR 0x0A] @ ''world'', tr2)" by blast
  from generate_with_sdk_final_text [OF g1] generate_with_sdk_final_text [OF g2]
  have "spec_final_text [?A, ?R] = ''done''"
    "spec_final_text [?A] = ''hello'' @ [CHR 0x0A] @ ''world''" by simp_all
  with 1 2 3 show ?thesis by blast
qed

text \<open>
  Claim C1 as stated takes the result of any message that has a \<open>result\<close> attribute
  whose stripped string form is not empty. A \<open>result\<close> that is \<open>None\<close> has the string
  form \<open>None\<close>, and one that is \<open>0\<close> the string form \<open>0\<close>; neither is truthy, and the
  final text is the sentinel.
\<close>

theorem generate_with_sdk_falsy_result_counterexample:
  "hasattr_of (getattr \<lparr>type_name = ''ResultMessage'', attrs = [(''result'', Inr PyNone)]\<rparr>
       ''result'') = Inr True
   \<and> strip (py_str PyNone) = ''None''
   \<and> (\<exists>tr. generate_with_sdk (\<lambda>kvs. Inr ''{}'') (\<lambda>p. False) False None
         \<lparr>stream_messages = [\<lparr>type_name = ''ResultMessage'', attrs = [(''result'', Inr PyNone)]\<rparr>],
          stream_error = None\<rparr> = Inr (''-- No content generated --'', tr))
   \<and> hasattr_of (getattr \<lparr>type_name = ''ResultMessage'', attrs = [(''result'', Inr (PyInt 0))]\<rparr>
       ''result'') = Inr True
   \<and> strip (py_str (PyInt 0)) = ''0''
   \<and> (\<exists>tr. generate_with_sdk (\<lambda>kvs. Inr ''{}'') (\<lambda>p. False) False None
         \<lparr>stream_messages = [\<lparr>type_name = ''ResultMessage'', attrs = [(''result'', Inr (PyInt 0))]\<rparr>],
          stream_error = None\<rparr> = Inr (''-- No content generated --'', tr))"
  by (simp add: generate_with_sdk_def consume_stream_def handle_message_def
    add_message_to_transcript_def truthy_attr_def hasattr_of_def getattr_def
    getattr_default_of_def py_dir_def field_text_def initial_state_def new_tracker_def
    final_text_def strip_def isspace_def py_str_def Let_def no_content_def show_int_def
    no_attribute_def)

section \<open>A result that strips to nothing\<close>

lemma render_fields_returns:
  "render_fields dumps m names e1 = Inr t1 \<Longrightarrow> \<exists>t2. render_fields dumps m names e2 = Inr t2"
proof (induction names arbitrary: e1 e2 t1)
  case Nil
  show ?case by simp
next
  case (Cons n ns)
  from Cons.prems Cons.IH show ?case
    by (auto split: if_splits sum.splits)
qed

lemma add_message_to_transcript_returns:
  assumes "add_message_to_transcript dumps tr1 n1 m = Inr tr1'"
  shows "\<exists>tr2'. add_message_to_transcript dumps tr2 n2 m = Inr tr2'"
proof -
  from assms obtain t1 where "render_fields dumps m (py_dir m) (header n1 m) = Inr t1"
    by (auto simp: add_message_to_transcript_def split: sum.splits)
  from render_fields_returns [OF this, of "header n2 m"]
  show ?thesis by (auto simp: add_message_to_transcript_def)
qed

lemma handle_message_sim:
  assumes "handle_message dumps s1 m = Inr s1'"
    and "generated_content s2 = generated_content s1"
    and "final_result_content s2 = final_result_content s1"
  shows "\<exists>s2'. handle_message dumps s2 m = Inr s2'
            \<and> generated_content s2' = generated_content s1'
            \<and> final_result_content s2' = final_result_content s1'"
proof -
  from assms(1) obtain tr1 where
    "add_message_to_transcript dumps (tracker s1) (message_count s1 + 1) m = Inr tr1"
    by (auto simp: handle_message_def Let_def split: sum.splits)
  from add_message_to_transcript_returns [OF this] obtain tr2 where
    "add_message_to_transcript dumps (tracker s2) (message_count s2 + 1) m = Inr tr2"
    by blast
  with assms show ?thesis
    by (auto simp: handle_message_def Let_def
        split: sum.splits option.splits pyval.splits if_splits prod.splits)
qed

lemma receive_response_sim:
  assumes "receive_response dumps s1 msgs = Inr s1'"
    and "generated_content s2 = generated_content s1"
    and "final_result_content s2 = final_result_content s1"
  shows "\<exists>s2'. receive_response dumps s2 msgs = Inr s2'
            \<and> generated_content s2' = generated_content s1'
            \<and> final_result_content s2' = final_result_content s1'"
  using assms
proof (induction msgs arbitrary: s1 s2)
  case Nil
  then show ?case by simp
next
  case (Cons m ms)
  from Cons.prems(1) obtain t1 where
    t1: "handle_message dumps s1 m = Inr t1" "receive_response dumps t1 ms = Inr s1'"
    by (auto split: sum.splits)
  from handle_message_sim [OF t1(1) Cons.prems(2,3)] obtain t2 where
    t2: "handle_message dumps s2 m = Inr t2" "generated_content t2 = generated_content t1"
      "final_result_content t2 = final_result_content t1"
    by blast
  from Cons.IH [OF t1(2) t2(2,3)] t2(1) show ?case by simp
qed

lemma receive_response_append:
  "receive_response dumps st (xs @ ys) =
     (case receive_response dumps st xs of
        Inl failure \<Rightarrow> Inl failure
      | Inr st' \<Rightarrow> receive_response dumps st' ys)"
  by (induction xs arbitrary: st) (simp_all split: sum.splits)

lemma whitespace_result_step:
  assumes "getattr m ''result'' = Inr v" "py_truthy v" "strip (py_str v) = []"
    and "handle_message dumps st m = Inr st'"
  shows "final_result_content st' = final_result_content st"
    and "generated_content st' = generated_content st"
proof -
  from assms(1,2) have t: "truthy_field m ''result'' = Some v" by (simp add: truthy_field_def)
  with assms(3) have "result_text m = None" "message_fragments m = []"
    by (simp_all add: result_text_def message_fragments_def)
  with handle_message_text [OF assms(4)]
  show "final_result_content st' = final_result_content st"
    and "generated_content st' = generated_content st"
    by simp_all
qed

text \<open>
  Claim C10. A message whose \<open>result\<close> is there and truthy but strips to the empty
  text changes neither the final result nor the collected content, whatever its content
  blocks are; and a stream returns the same final text as the stream without that
  message.
\<close>

theorem whitespace_result_contributes_nothing:
  assumes "getattr m ''result'' = Inr v" "py_truthy v" "strip (py_str v) = []"
  shows "(\<forall>st st'. handle_message dumps st m = Inr st' \<longrightarrow>
            final_result_content st' = final_result_content st
            \<and> generated_content st' = generated_content st)
       \<and> (\<forall>pre post text tr.
            generate_with_sdk dumps exists_path use_mcp server_path
              \<lparr>stream_messages = pre @ m # post, stream_error = err\<rparr> = Inr (text, tr)
            \<longrightarrow> (\<exists>tr'. generate_with_sdk dumps exists_path use_mcp server_path
                        \<lparr>stream_messages = pre @ post, stream_error = err\<rparr> = Inr (text, tr')))"
proof -
  have step: "final_result_content st' = final_result_content st
      \<and> generated_content st' = generated_content st"
    if "handle_message dumps st m = Inr st'" for st st'
    using whitespace_result_step [OF assms that] by simp
  have stream: "\<exists>tr'. generate_with_sdk dumps exists_path use_mcp server_path
                  \<lparr>stream_messages = pre @ post, stream_error = err\<rparr> = Inr (t, tr')"
    if g: "generate_with_sdk dumps exists_path use_mcp server_path
              \<lparr>stream_messages = pre @ m # post, stream_error = err\<rparr> = Inr (t, tr)"
    for pre post t tr
  proof -
    from g have ok: "\<not> (use_mcp \<and> (case server_path of None \<Rightarrow> True
                                  | Some p \<Rightarrow> p = [] \<or> \<not> exists_path p))"
      and e: "err = None"
      by (auto simp: generate_with_sdk_def consume_stream_def
          split: if_splits sum.splits option.splits prod.splits)
    from g obtain st where st: "receive_response dumps initial_state (pre @ m # post) = Inr st"
      and tx: "t = final_text st"
      by (auto simp: generate_with_sdk_def consume_stream_def
          split: if_splits sum.splits option.splits prod.splits)
    from st obtain s1 s2 where s1: "receive_response dumps initial_state pre = Inr s1"
      and s2: "handle_message dumps s1 m = Inr s2"
      and s3: "receive_response dumps s2 post = Inr st"
      by (auto simp: receive_response_append split: sum.splits)
    from whitespace_result_step [OF assms s2]
    have "generated_content s1 = generated_content s2"
      "final_result_content s1 = final_result_content s2" by simp_all
    from receive_response_sim [OF s3 this] obtain st2 where
      st2: "receive_response dumps s1 post = Inr st2"
        "generated_content st2 = generated_content st"
        "final_result_content st2 = final_result_content st"
      by blast
    from s1 st2(1) have "receive_response dumps initial_state (pre @ post) = Inr st2"
      by (simp add: receive_response_append)
    moreover from st2(2,3) have "final_text st2 = final_text st" by (simp add: final_text_def)
    ultimately show ?thesis
      using ok e tx by (simp add: generate_with_sdk_def consume_stream_def)
  qed
  from step stream show ?thesis by blast
qed

text \<open>
  A result of one blank, in a message that also has a text block.
\<close>

theorem whitespace_result_contributes_nothing_witness:
  "(\<exists>tr. generate_with_sdk (\<lambda>kvs. Inr ''{}'') (\<lambda>p. False) False None
       \<lparr>stream_messages =
          [\<lparr>type_name = ''AssistantMessage'',
            attrs = [(''content'', Inr (PyList
                       [PyObj ''TextBlock'' [(''text'', Inr (PyStr ''hello''))] ''TextBlock'']))]\<rparr>,
           \<lparr>type_name = ''ResultMessage'',
            attrs = [(''content'', Inr (PyList
                       [PyObj ''TextBlock'' [(''text'', Inr (PyStr ''lost''))] ''TextBlock''])),
                     (''result'', Inr (PyStr '' ''))]\<rparr>],
        stream_error = None\<rparr> = Inr (''hello'', tr))
   \<and> (\<exists>tr. generate_with_sdk (\<lambda>kvs. Inr ''{}'') (\<lambda>p. False) False None
       \<lparr>stream_messages =
          [\<lparr>type_name = ''AssistantMessage'',
            attrs = [(''content'', Inr (PyList
                       [PyObj ''TextBlock'' [(''text'', Inr (PyStr ''hello''))] ''TextBlock'']))]\<rparr>],
        stream_error = None\<rparr> = Inr (''hello'', tr))"
proof -
  let ?A = "\<lparr>type_name = ''AssistantMessage'',
            attrs = [(''content'', Inr (PyList
                       [PyObj ''TextBlock'' [(''text'', Inr (PyStr ''hello''))] ''TextBlock'']))]\<rparr>"
  let ?W = "\<lparr>type_name = ''ResultMessage'',
            attrs = [(''content'', Inr (PyList
                       [PyObj ''TextBlock'' [(''text'', Inr (PyStr ''lost''))] ''TextBlock''])),
                     (''result'', Inr (PyStr '' ''))]\<rparr>"
  let ?gen = "\<lambda>ms. generate_with_sdk (\<lambda>kvs. Inr ''{}'') (\<lambda>p. False) False None
       \<lparr>stream_messages = ms, stream_error = None\<rparr>"
  note defs = generate_with_sdk_def consume_stream_def handle_message_def
    add_message_to_transcript_def truthy_attr_def hasattr_of_def getattr_def
    getattr_default_of_def py_dir_def field_text_def initial_state_def new_tracker_def
    final_text_def strip_def isspace_def py_str_def Let_def no_content_def no_attribute_def
  have 1: "\<exists>tr. ?gen ([?A] @ ?W # []) = Inr (''hello'', tr)" by (simp add: defs)
  then obtain tr where g: "?gen ([?A] @ ?W # []) = Inr (''hello'', tr)" by blast
  have h: "getattr ?W ''result'' = Inr (PyStr '' '')" "py_truthy (PyStr '' '')"
    "strip (py_str (PyStr '' '')) = []"
    by (simp_all add: getattr_def strip_def isspace_def py_str_def)
  from whitespace_result_contributes_nothing [OF h, of "\<lambda>kvs. Inr ''{}''" "\<lambda>p. False" False None None]
    g
  have "\<exists>tr'. ?gen ([?A] @ []) = Inr (''hello'', tr')" by blast
  with 1 show ?thesis by simp
qed

section \<open>The transcript\<close>

lemma render_fields_suffix:
  "render_fields dumps m names e = Inr t \<Longrightarrow>
     \<exists>sfx. t = e @ sfx \<and> (\<forall>e2. render_fields dumps m names e2 = Inr (e2 @ sfx))"
proof (induction names arbitrary: e t)
  case Nil
  then show ?case by simp
next
  case (Cons n ns)
  show ?case
  proof (cases "prefix ''_'' n")
    case True
    with Cons.prems have "render_fields dumps m ns e = Inr t" by simp
    from Cons.IH [OF this] True show ?thesis by simp
  next
    case False
    with Cons.prems obtain probe where
      p: "getattr_default_of (getattr m n) PyNone = Inr probe"
      by (auto split: sum.splits)
    show ?thesis
    proof (cases "callable probe")
      case True
      with Cons.prems False p have "render_fields dumps m ns e = Inr t" by simp
      from Cons.IH [OF this] False p True show ?thesis by simp
    next
      case nc: False
      with Cons.prems False p obtain tx where
        tx: "field_text dumps m n = Inr tx"
        by (auto split: sum.splits)
      with Cons.prems False p nc
      have "render_fields dumps m ns (e @ tx) = Inr t" by simp
      from Cons.IH [OF this] obtain sfx where
        sfx: "t = (e @ tx) @ sfx"
          "\<forall>e2. render_fields dumps m ns e2 = Inr (e2 @ sfx)"
        by blast
      have "\<forall>e2. render_fields dumps m (n # ns) e2 = Inr (e2 @ tx @ sfx)"
        using False p nc tx sfx(2) by simp
      with sfx(1) show ?thesis by simp
    qed
  qed
qed

lemma add_message_to_transcript_entry:
  assumes "add_message_to_transcript dumps tr n m = Inr tr'"
  shows "\<exists>entry. full_conversation tr' = full_conversation tr @ [entry]
            \<and> add_message_to_transcript dumps new_tracker n m = Inr \<lparr>full_conversation = [entry]\<rparr>
            \<and> prefix (header n m) entry"
proof -
  from assms obtain t where t: "render_fields dumps m (py_dir m) (header n m) = Inr t"
    and tr': "tr' = tr\<lparr>full_conversation := full_conversation tr @ [t @ separator]\<rparr>"
    by (auto simp: add_message_to_transcript_def split: sum.splits)
  from render_fields_suffix [OF t] obtain sfx where "t = header n m @ sfx" by blast
  then have "prefix (header n m) (t @ separator)" by simp
  with t tr' show ?thesis
    by (simp add: add_message_to_transcript_def new_tracker_def)
qed

lemma handle_message_recorded:
  assumes "handle_message dumps st m = Inr st'"
  shows "message_count st' = message_count st + 1
       \<and> (\<exists>tr. add_message_to_transcript dumps (tracker st) (message_count st + 1) m = Inr tr
               \<and> tracker st' = tr)"
  using assms
  by (auto simp: handle_message_def Let_def
      split: sum.splits option.splits pyval.splits if_splits prod.splits)

lemma handle_message_failure_keeps:
  assumes "handle_message dumps st m = Inl (e, st')"
  shows "prefix (full_conversation (tracker st)) (full_conversation (tracker st'))"
proof (cases "add_message_to_transcript dumps (tracker st) (message_count st + 1) m")
  case (Inl e')
  with assms show ?thesis by (auto simp: handle_message_def Let_def)
next
  case (Inr tr)
  from add_message_to_transcript_entry [OF Inr] obtain entry where
    "full_conversation tr = full_conversation (tracker st) @ [entry]" by blast
  with assms Inr show ?thesis
    by (auto simp: handle_message_def Let_def
        split: sum.splits option.splits pyval.splits if_splits prod.splits)
qed

lemma receive_response_recorded:
  assumes "receive_response dumps st0 msgs = Inr st"
  shows "message_count st = message_count st0 + int (length msgs)
       \<and> (\<exists>entries. full_conversation (tracker st) = full_conversation (tracker st0) @ entries
             \<and> length entries = length msgs
             \<and> (\<forall>i<length msgs.
                   add_message_to_transcript dumps new_tracker
                       (message_count st0 + int i + 1) (msgs ! i)
                     = Inr \<lparr>full_conversation = [entries ! i]\<rparr>
                   \<and> prefix (header (message_count st0 + int i + 1) (msgs ! i)) (entries ! i)))"
  using assms
proof (induction msgs arbitrary: st0)
  case Nil
  then show ?case by simp
next
  case (Cons m ms)
  from Cons.prems obtain st1 where
    st1: "handle_message dumps st0 m = Inr st1" and rest: "receive_response dumps st1 ms = Inr st"
    by (auto split: sum.splits)
  from handle_message_recorded [OF st1] obtain tr where
    c1: "message_count st1 = message_count st0 + 1"
    and tr: "add_message_to_transcript dumps (tracker st0) (message_count st0 + 1) m = Inr tr"
      "tracker st1 = tr"
    by blast
  from add_message_to_transcript_entry [OF tr(1)] obtain entry where
    entry: "full_conversation tr = full_conversation (tracker st0) @ [entry]"
      "add_message_to_transcript dumps new_tracker (message_count st0 + 1) m
         = Inr \<lparr>full_conversation = [entry]\<rparr>"
      "prefix (header (message_count st0 + 1) m) entry"
    by blast
  from Cons.IH [OF rest] obtain entries where
    ih: "message_count st = message_count st1 + int (length ms)"
      "full_conversation (tracker st) = full_conversation (tracker st1) @ entries"
      "length entries = length ms"
      "\<forall>i<length ms.
          add_message_to_transcript dumps new_tracker (message_count st1 + int i + 1) (ms ! i)
            = Inr \<lparr>full_conversation = [entries ! i]\<rparr>
          \<and> prefix (header (message_count st1 + int i + 1) (ms ! i)) (entries ! i)"
    by blast
  have each: "add_message_to_transcript dumps new_tracker
                  (message_count st0 + int i + 1) ((m # ms) ! i)
                = Inr \<lparr>full_conversation = [(entry # entries) ! i]\<rparr>
              \<and> prefix (header (message_count st0 + int i + 1) ((m # ms) ! i))
                  ((entry # entries) ! i)"
    if "i < length (m # ms)" for i
  proof (cases i)
    case 0
    with entry show ?thesis by simp
  next
    case (Suc j)
    with that have "j < length ms" by simp
    with ih(4) have "add_message_to_transcript dumps new_tracker (message_count st1 + int j + 1) (ms ! j)
            = Inr \<lparr>full_conversation = [entries ! j]\<rparr>
          \<and> prefix (header (message_count st1 + int j + 1) (ms ! j)) (entries ! j)"
      by blast
    moreover have "message_count st1 + int j + 1 = message_count st0 + int i + 1"
      using c1 Suc by simp
    ultimately show ?thesis using Suc by simp
  qed
  have "full_conversation (tracker st) = full_conversation (tracker st0) @ (entry # entries)"
    using ih(2) tr(2) entry(1) by simp
  moreover have "length (entry # entries) = length (m # ms)" using ih(3) by simp
  moreover have "message_count st = message_count st0 + int (length (m # ms))"
    using ih(1) c1 by simp
  ultimately show ?case using each by blast
qed

lemma receive_response_keeps:
  "receive_response dumps st0 msgs = Inr st \<Longrightarrow>
     prefix (full_conversation (tracker st0)) (full_conversation (tracker st))"
  using receive_response_recorded by fastforce

lemma receive_response_failure_keeps:
  "receive_response dumps st0 msgs = Inl (e, st') \<Longrightarrow>
     prefix (full_conversation (tracker st0)) (full_conversation (tracker st'))"
proof (induction msgs arbitrary: st0)
  case Nil
  then show ?case by simp
next
  case (Cons m ms)
  show ?case
  proof (cases "handle_message dumps st0 m")
    case (Inl f)
    with Cons.prems have "handle_message dumps st0 m = Inl (e, st')" by simp
    then show ?thesis by (rule handle_message_failure_keeps)
  next
    case (Inr st1)
    with Cons.prems have "receive_response dumps st1 ms = Inl (e, st')" by simp
    from Cons.IH [OF this] have "prefix (full_conversation (tracker st1)) (full_conversation (tracker st'))" .
    moreover from handle_message_recorded [OF Inr] add_message_to_transcript_entry
    have "prefix (full_conversation (tracker st0)) (full_conversation (tracker st1))"
      by fastforce
    ultimately show ?thesis by (rule prefix_order.order_trans [rotated])
  qed
qed

text \<open>
  When the loop body has run to its end for each of the messages \<open>msgs\<close>, the message
  count is their number and the transcript has as many entries; entry \<open>i\<close> is what
  recording message \<open>i\<close> with the ordinal \<open>i + 1\<close> appends, and starts with the header
  of that ordinal and message. This is the state the loop is left in when the stream
  ends, and also when the stream raises after these messages; and when a later message
  fails, the partial transcript still starts with these entries.
\<close>

theorem transcript_one_entry_per_message:
  assumes "receive_response dumps initial_state msgs = Inr st"
  shows "message_count st = int (length msgs)
       \<and> length (full_conversation (tracker st)) = length msgs
       \<and> (\<forall>i<length msgs.
             add_message_to_transcript dumps new_tracker (int i + 1) (msgs ! i)
               = Inr \<lparr>full_conversation = [full_conversation (tracker st) ! i]\<rparr>
             \<and> prefix (header (int i + 1) (msgs ! i)) (full_conversation (tracker st) ! i))
       \<and> consume_stream dumps \<lparr>stream_messages = msgs, stream_error = None\<rparr> = Inr st
       \<and> (\<forall>e. consume_stream dumps \<lparr>stream_messages = msgs, stream_error = Some e\<rparr>
               = Inl (e, st))
       \<and> (\<forall>more e st'. receive_response dumps initial_state (msgs @ more) = Inl (e, st')
             \<longrightarrow> prefix (full_conversation (tracker st)) (full_conversation (tracker st')))"
proof -
  from receive_response_recorded [OF assms] obtain entries where
    r: "message_count st = int (length msgs)"
      "full_conversation (tracker st) = entries" "length entries = length msgs"
      "\<forall>i<length msgs.
          add_message_to_transcript dumps new_tracker (int i + 1) (msgs ! i)
            = Inr \<lparr>full_conversation = [entries ! i]\<rparr>
          \<and> prefix (header (int i + 1) (msgs ! i)) (entries ! i)"
    by (auto simp: initial_state_def new_tracker_def)
  have later: "prefix (full_conversation (tracker st)) (full_conversation (tracker st'))"
    if "receive_response dumps initial_state (msgs @ more) = Inl (e, st')" for more e st'
  proof -
    from that assms have "receive_response dumps st more = Inl (e, st')"
      by (simp add: receive_response_append)
    then show ?thesis by (rule receive_response_failure_keeps)
  qed
  from r assms later show ?thesis
    by (simp add: consume_stream_def)
qed

text \<open>
  Two messages.
\<close>

lemma transcript_one_entry_per_message_example:
  "\<exists>st. receive_response (\<lambda>kvs. Inr ''{}'') initial_state
          [\<lparr>type_name = ''AssistantMessage'', attrs = [(''model'', Inr (PyStr ''m''))]\<rparr>,
           \<lparr>type_name = ''ResultMessage'', attrs = [(''result'', Inr (PyStr ''done''))]\<rparr>] = Inr st
      \<and> message_count st = 2
      \<and> length (full_conversation (tracker st)) = 2
      \<and> prefix ''=== Message 1: AssistantMessage ==='' (full_conversation (tracker st) ! 0)
      \<and> prefix ''=== Message 2: ResultMessage ==='' (full_conversation (tracker st) ! 1)"
proof -
  let ?A = "\<lparr>type_name = ''AssistantMessage'', attrs = [(''model'', Inr (PyStr ''m''))]\<rparr>"
  let ?R = "\<lparr>type_name = ''ResultMessage'', attrs = [(''result'', Inr (PyStr ''done''))]\<rparr>"
  have "\<exists>st. receive_response (\<lambda>kvs. Inr ''{}'') initial_state [?A, ?R] = Inr st"
    by (simp add: handle_message_def add_message_to_transcript_def truthy_attr_def
        hasattr_of_def getattr_def getattr_default_of_def py_dir_def field_text_def
        initial_state_def new_tracker_def strip_def isspace_def py_str_def Let_def
        no_attribute_def)
  then obtain st where st: "receive_response (\<lambda>kvs. Inr ''{}'') initial_state [?A, ?R] = Inr st"
    by blast
  note t = transcript_one_entry_per_message [OF st]
  from t have c: "message_count st = 2" "length (full_conversation (tracker st)) = 2"
    by simp_all
  from t have q: "prefix (header (int i + 1) ([?A, ?R] ! i)) (full_conversation (tracker st) ! i)"
    if "i < length [?A, ?R]" for i
    using that by blast
  from q [of 0] q [of 1]
  have "prefix (''=== Message 1: AssistantMessage ==='' @ [CHR 0x0A])
       (full_conversation (tracker st) ! 0)"
    "prefix (''=== Message 2: ResultMessage ==='' @ [CHR 0x0A])
       (full_conversation (tracker st) ! 1)"
    by (simp_all add: header_def show_int_def)
  then have "prefix ''=== Message 1: AssistantMessage ==='' (full_conversation (tracker st) ! 0)"
    "prefix ''=== Message 2: ResultMessage ==='' (full_conversation (tracker st) ! 1)"
    by (blast dest: append_prefixD)+
  with st c show ?thesis by blast
qed

text \<open>
  Claim C6 says that the transcript has one entry for each message observed, also when
  the session fails later. The counter is advanced on line 165, before the message is
  recorded on line 168. Two messages, the second with an attribute whose getter raises
  \<open>ValueError\<close>: recording the second raises, two messages have been counted and the
  partial transcript has one entry.
\<close>

theorem receive_response_unrecorded_message:
  "receive_response dumps initial_state
     [\<lparr>type_name = ''AssistantMessage'', attrs = [(''model'', Inr (PyStr ''m''))]\<rparr>,
      \<lparr>type_name = ''ResultMessage'',
       attrs = [(''result'', Inr (PyStr ''done'')),
                (''usage'', Inl (PyExc ValueError ''boom''))]\<rparr>]
   = Inl (PyExc ValueError ''boom'',
          \<lparr>generated_content = [], final_result_content = [], message_count = 2,
           tracker = \<lparr>full_conversation =
             [''=== Message 1: AssistantMessage ==='' @ [CHR 0x0A]
              @ ''model: m'' @ [CHR 0x0A] @ separator]\<rparr>\<rparr>)
   \<and> consume_stream dumps
       \<lparr>stream_messages =
          [\<lparr>type_name = ''AssistantMessage'', attrs = [(''model'', Inr (PyStr ''m''))]\<rparr>,
           \<lparr>type_name = ''ResultMessage'',
            attrs = [(''result'', Inr (PyStr ''done'')),
                     (''usage'', Inl (PyExc ValueError ''boom''))]\<rparr>],
        stream_error = None\<rparr>
     = Inl (PyExc ValueError ''boom'',
          \<lparr>generated_content = [], final_result_content = [], message_count = 2,
           tracker = \<lparr>full_conversation =
             [''=== Message 1: AssistantMessage ==='' @ [CHR 0x0A]
              @ ''model: m'' @ [CHR 0x0A] @ separator]\<rparr>\<rparr>)"
  by (simp add: consume_stream_def handle_message_def add_message_to_transcript_def
      truthy_attr_def hasattr_of_def getattr_def getattr_default_of_def py_dir_def
      field_text_def header_def show_int_def initial_state_def new_tracker_def py_str_def
      no_attribute_def Let_def)

text \<open>
  When every attribute can be read, or raises \<open>AttributeError\<close> and nothing else, and
  \<open>json.dumps\<close> raises nothing but an \<open>Exception\<close>, the entry is the header and, for
  each public attribute that is not callable, the text of its \<open>try\<close> block.
\<close>

lemma field_text_readable:
  assumes "\<forall>e. getattr m n = Inl e \<longrightarrow> is_AttributeError e"
    and "\<forall>kvs e. dumps kvs = Inl e \<longrightarrow> is_Exception e"
  shows "\<exists>tx. field_text dumps m n = Inr tx"
proof (cases "getattr m n")
  case (Inl e)
  with assms(1) have "is_AttributeError e" by simp
  then have "is_Exception e" by (cases e) simp
  with Inl show ?thesis by (simp add: field_text_def except_Exception_def)
next
  case (Inr v)
  show ?thesis
  proof (cases "format_value dumps n v")
    case r: (Inr tx)
    with Inr show ?thesis by (simp add: field_text_def)
  next
    case l: (Inl e)
    then obtain kvs where "v = PyDict kvs" "dumps kvs = Inl e"
      by (cases v) (auto split: sum.splits)
    with assms(2) have "is_Exception e" by blast
    with Inr l show ?thesis by (simp add: field_text_def except_Exception_def)
  qed
qed

lemma render_fields_readable:
  assumes "\<forall>n \<in> set names. \<forall>e. getattr m n = Inl e \<longrightarrow> is_AttributeError e"
    and "\<forall>kvs e. dumps kvs = Inl e \<longrightarrow> is_Exception e"
  shows "\<exists>texts.
     map (field_text dumps m)
       (filter (\<lambda>n. \<not> prefix ''_'' n
                   \<and> (case getattr m n of Inl e \<Rightarrow> True | Inr v \<Rightarrow> \<not> callable v))
          names) = map Inr texts
     \<and> render_fields dumps m names entry = Inr (entry @ concat texts)"
  using assms(1)
proof (induction names arbitrary: entry)
  case Nil
  show ?case by simp
next
  case (Cons n ns)
  let ?keep = "\<lambda>n. \<not> prefix ''_'' n
                   \<and> (case getattr m n of Inl e \<Rightarrow> True | Inr v \<Rightarrow> \<not> callable v)"
  from Cons have ih: "\<And>entry. \<exists>texts.
     map (field_text dumps m) (filter ?keep ns) = map Inr texts
     \<and> render_fields dumps m ns entry = Inr (entry @ concat texts)"
    by simp
  from Cons.prems have n: "\<forall>e. getattr m n = Inl e \<longrightarrow> is_AttributeError e" by simp
  from field_text_readable [OF n assms(2)] obtain tx where
    tx: "field_text dumps m n = Inr tx" by blast
  have probe: "getattr_default_of (getattr m n) PyNone
      = Inr (case getattr m n of Inl e \<Rightarrow> PyNone | Inr v \<Rightarrow> v)"
    using n by (auto simp: getattr_default_of_def split: sum.splits)
  show ?case
  proof (cases "?keep n")
    case True
    from ih [of "entry @ tx"] obtain texts where
      t: "map (field_text dumps m) (filter ?keep ns) = map Inr texts"
        "render_fields dumps m ns (entry @ tx) = Inr ((entry @ tx) @ concat texts)"
      by blast
    from True have nc: "\<not> callable (case getattr m n of Inl e \<Rightarrow> PyNone | Inr v \<Rightarrow> v)"
      by (auto split: sum.splits)
    from True t tx have "map (field_text dumps m) (filter ?keep (n # ns)) = map Inr (tx # texts)"
      by simp
    moreover from True nc probe tx t(2)
    have "render_fields dumps m (n # ns) entry = Inr (entry @ concat (tx # texts))"
      by simp
    ultimately show ?thesis by blast
  next
    case False
    from ih [of entry] obtain texts where
      t: "map (field_text dumps m) (filter ?keep ns) = map Inr texts"
        "render_fields dumps m ns entry = Inr (entry @ concat texts)"
      by blast
    from False have skip: "prefix ''_'' n
        \<or> callable (case getattr m n of Inl e \<Rightarrow> PyNone | Inr v \<Rightarrow> v)"
      by (auto split: sum.splits)
    from False t(1) have "map (field_text dumps m) (filter ?keep (n # ns)) = map Inr texts"
      by simp
    moreover from skip probe t(2)
    have "render_fields dumps m (n # ns) entry = Inr (entry @ concat texts)"
      by auto
    ultimately show ?thesis by blast
  qed
qed

text \<open>
  An attribute whose getter raises \<open>AttributeError\<close> is recorded inline.
\<close>

lemma add_message_to_transcript_attribute_error:
  "add_message_to_transcript dumps new_tracker 1
     \<lparr>type_name = ''ResultMessage'',
      attrs = [(''result'', Inr (PyStr ''done'')),
               (''usage'', Inl (PyExc AttributeError ''boom''))]\<rparr>
   = Inr \<lparr>full_conversation =
       [''=== Message 1: ResultMessage ==='' @ [CHR 0x0A]
        @ ''result: done'' @ [CHR 0x0A]
        @ ''usage: <error accessing: boom>'' @ [CHR 0x0A]
        @ separator]\<rparr>"
  by (simp add: add_message_to_transcript_def py_dir_def getattr_def getattr_default_of_def
      field_text_def except_Exception_def header_def show_int_def error_line_def py_str_def
      new_tracker_def)

text \<open>
  Claim C7 says that an attribute whose read raises is recorded inline and never aborts
  the entry or the session. An attribute whose getter raises \<open>ValueError\<close>: the test of
  line 42 reads it outside the \<open>try\<close> block, the exception leaves
  \<open>add_message_to_transcript\<close> without an entry, and \<open>generate_with_sdk\<close> raises it.
\<close>

theorem add_message_to_transcript_unreadable_field_aborts:
  "add_message_to_transcript dumps new_tracker 1
     \<lparr>type_name = ''ResultMessage'',
      attrs = [(''result'', Inr (PyStr ''done'')),
               (''usage'', Inl (PyExc ValueError ''boom''))]\<rparr>
   = Inl (PyExc ValueError ''boom'')
   \<and> generate_with_sdk dumps (\<lambda>p. False) False None
       \<lparr>stream_messages =
          [\<lparr>type_name = ''ResultMessage'',
            attrs = [(''result'', Inr (PyStr ''done'')),
                     (''usage'', Inl (PyExc ValueError ''boom''))]\<rparr>],
        stream_error = None\<rparr>
     = Inl (PyExc ValueError ''boom'')"
  by (simp add: add_message_to_transcript_def py_dir_def getattr_def getattr_default_of_def
      field_text_def header_def show_int_def error_line_def py_str_def new_tracker_def
      generate_with_sdk_def consume_stream_def handle_message_def initial_state_def Let_def)

section \<open>When the loop runs to its end\<close>

lemma getattr_readable:
  assumes "list_all (\<lambda>field. readable (snd field)) (attrs m)"
  shows "readable (getattr m name)"
proof (cases "map_of (attrs m) name")
  case None
  then show ?thesis by (simp add: getattr_def readable_def no_attribute_def)
next
  case (Some r)
  then have "(name, r) \<in> set (attrs m)" by (rule map_of_SomeD)
  with assms have "readable r" by (auto simp: list_all_iff)
  with Some show ?thesis by (simp add: getattr_def)
qed

lemma add_message_to_transcript_readable:
  assumes "list_all (\<lambda>field. readable (snd field)) (attrs m)"
    and "\<forall>kvs e. dumps kvs = Inl e \<longrightarrow> is_Exception e"
  shows "\<exists>tr'. add_message_to_transcript dumps tr n m = Inr tr'"
proof -
  have "is_AttributeError e" if "getattr m name = Inl e" for name e
    using getattr_readable [OF assms(1), of name] that by (simp add: readable_def)
  then have "\<forall>name \<in> set (py_dir m). \<forall>e. getattr m name = Inl e \<longrightarrow> is_AttributeError e"
    by blast
  from render_fields_readable [OF this assms(2), of "header n m"] show ?thesis
    by (auto simp: add_message_to_transcript_def)
qed

lemma truthy_attr_readable:
  assumes "list_all (\<lambda>field. readable (snd field)) (attrs m)"
  shows "truthy_attr m name = Inr (truthy_field m name)"
  using getattr_readable [OF assms, of name]
  by (auto simp: truthy_attr_def truthy_field_def hasattr_of_def readable_def split: sum.splits)

lemma collect_text_readable:
  "list_all block_readable blocks \<Longrightarrow> \<exists>g'. collect_text blocks g = Inr g'"
proof (induction blocks arbitrary: g)
  case Nil
  show ?case by simp
next
  case (Cons b bs)
  then have b: "block_readable b" and ih: "\<And>g. \<exists>g'. collect_text bs g = Inr g'" by simp_all
  from b ih show ?case
    by (auto simp: block_readable_def readable_def hasattr_of_def has_attr_def Let_def
        split: sum.splits pyval.splits if_splits)
qed

lemma handle_message_readable:
  assumes "message_readable m"
    and "\<forall>kvs e. dumps kvs = Inl e \<longrightarrow> is_Exception e"
  shows "\<exists>st'. handle_message dumps st m = Inr st'"
proof -
  from assms(1) have a: "list_all (\<lambda>field. readable (snd field)) (attrs m)"
    by (simp add: message_readable_def)
  from add_message_to_transcript_readable [OF a assms(2)] obtain tr where
    tr: "add_message_to_transcript dumps (tracker st) (message_count st + 1) m = Inr tr"
    by blast
  note t = truthy_attr_readable [OF a]
  show ?thesis
  proof (cases "truthy_field m ''result''")
    case (Some v)
    with tr t show ?thesis by (simp add: handle_message_def Let_def)
  next
    case None
    show ?thesis
    proof (cases "\<exists>blocks. truthy_field m ''content'' = Some (PyList blocks)")
      case False
      with tr t None show ?thesis
        by (auto simp: handle_message_def Let_def split: option.splits pyval.splits)
    next
      case True
      then obtain blocks where c: "truthy_field m ''content'' = Some (PyList blocks)" by blast
      with assms(1) have "list_all block_readable blocks" by (simp add: message_readable_def)
      from collect_text_readable [OF this] obtain g' where
        "collect_text blocks (generated_content st) = Inr g'" by blast
      with tr t None c show ?thesis by (simp add: handle_message_def Let_def)
    qed
  qed
qed

lemma receive_response_readable:
  assumes "\<forall>kvs e. dumps kvs = Inl e \<longrightarrow> is_Exception e"
  shows "list_all message_readable msgs \<Longrightarrow> \<exists>st'. receive_response dumps st msgs = Inr st'"
proof (induction msgs arbitrary: st)
  case Nil
  show ?case by simp
next
  case (Cons m ms)
  then have "message_readable m" by simp
  from handle_message_readable [OF this assms] obtain st1 where
    "handle_message dumps st m = Inr st1" by blast
  with Cons show ?case by simp
qed

text \<open>
  \<open>generate_with_sdk\<close> returns when the server path is there (or not asked for), the
  messages can be read, \<open>json.dumps\<close> raises nothing but an \<open>Exception\<close> and the stream
  ends without an exception.
\<close>

lemma generate_with_sdk_returns:
  assumes "\<not> use_mcp \<or> (\<exists>p. server_path = Some p \<and> p \<noteq> [] \<and> exists_path p)"
    and "list_all message_readable (stream_messages run)" and "stream_error run = None"
    and "\<forall>kvs e. dumps kvs = Inl e \<longrightarrow> is_Exception e"
  shows "\<exists>t tr. generate_with_sdk dumps exists_path use_mcp server_path run = Inr (t, tr)"
proof -
  from receive_response_readable [OF assms(4) assms(2)] obtain st where
    "receive_response dumps initial_state (stream_messages run) = Inr st" by blast
  with assms(1,3) show ?thesis
    by (auto simp: generate_with_sdk_def consume_stream_def)
qed

end
